theory Spec2Isabelle
  imports Complex_Main "HOL-Library.Sublist"
begin

section \<open>Data model\<close>

text \<open>
  The bill tracker of \<^verbatim>\<open>src/src/main.ts\<close>. A bill is the object type \<^verbatim>\<open>Bill\<close> of lines
  13-25; the collection is the module variable \<^verbatim>\<open>bills\<close>, an array kept in insertion order,
  modelled as a list that every operation takes and returns.

  Strings are lists of code units below 256. A JavaScript number is \<open>jsnum\<close>: a finite
  value (every finite double is a rational), or one of the three non-finite values.
\<close>

datatype Recurrence = Rec_none | Rec_monthly | Rec_yearly

datatype jsnum = Fin rat | NaN | PosInf | NegInf

record Bill =
  bill_id :: string
  name :: string
  amount :: jsnum
  dueDate :: string
  recurrence :: Recurrence
  bill_notes :: "string option"
  paid :: bool
  createdAt :: string
  updatedAt :: string

text \<open>
  The form elements read by \<^verbatim>\<open>validateBillForm\<close> and \<^verbatim>\<open>upsertBillFromForm\<close>. The field
  \<open>amountEl\<close> holds \<^verbatim>\<open>Number(amountEl.value)\<close>, the number the runtime reads from the text
  of the input; \<open>recurrenceEl\<close> holds the select's value at its declared type.
\<close>

record Form =
  idEl :: string
  nameEl :: string
  amountEl :: jsnum
  dueEl :: string
  recurrenceEl :: Recurrence
  notesEl :: string

section \<open>Strings and numbers of the runtime\<close>

definition isWhiteSpace :: "char \<Rightarrow> bool" where
  "isWhiteSpace c = ((of_char c :: nat) \<in> {9, 10, 11, 12, 13, 32, 160})"

definition trim :: "string \<Rightarrow> string" where
  "trim s = rev (dropWhile isWhiteSpace (rev (dropWhile isWhiteSpace s)))"




definition isDigit :: "char \<Rightarrow> bool" where
  "isDigit c = (48 \<le> (of_char c :: nat) \<and> (of_char c :: nat) \<le> 57)"

definition digitVal :: "char \<Rightarrow> nat" where
  "digitVal c = of_char c - 48"

definition readDigits :: "string \<Rightarrow> nat option" where
  "readDigits s =
     (if s \<noteq> [] \<and> list_all isDigit s
      then Some (foldl (\<lambda>a c. 10 * a + digitVal c) 0 s) else None)"

definition digitChar :: "nat \<Rightarrow> char" where
  "digitChar n = char_of (48 + n mod 10)"

text \<open>\<open>pad k n\<close>: the last \<open>k\<close> decimal digits of \<open>n\<close>, with leading zeros.\<close>

fun pad :: "nat \<Rightarrow> nat \<Rightarrow> string" where
  "pad 0 n = []"
| "pad (Suc k) n = pad k (n div 10) @ [digitChar n]"

text \<open>The decimal rendering of an integer, as a template literal prints it.\<close>

fun showNat :: "nat \<Rightarrow> nat \<Rightarrow> string" where
  "showNat 0 n = []"
| "showNat (Suc fuel) n = (if n < 10 then [digitChar n] else showNat fuel (n div 10) @ [digitChar n])"

definition showInt :: "int \<Rightarrow> string" where
  "showInt i = (if i < 0 then CHR ''-'' # showNat (Suc (nat (- i))) (nat (- i))
                else showNat (Suc (nat i)) (nat i))"

definition isFinite :: "jsnum \<Rightarrow> bool" where
  "isFinite n = (case n of Fin r \<Rightarrow> True | _ \<Rightarrow> False)"

text \<open>\<^verbatim>\<open>a <= b\<close> on numbers: false as soon as one side is NaN.\<close>

fun js_le :: "jsnum \<Rightarrow> jsnum \<Rightarrow> bool" where
  "js_le NaN b = False"
| "js_le a NaN = False"
| "js_le NegInf b = True"
| "js_le a PosInf = True"
| "js_le (Fin a) (Fin b) = (a \<le> b)"
| "js_le a b = False"

fun Math_max :: "jsnum \<Rightarrow> jsnum \<Rightarrow> jsnum" where
  "Math_max NaN b = NaN"
| "Math_max a NaN = NaN"
| "Math_max PosInf b = PosInf"
| "Math_max a PosInf = PosInf"
| "Math_max NegInf b = b"
| "Math_max a NegInf = a"
| "Math_max (Fin a) (Fin b) = Fin (max a b)"

text \<open>Lines 51-54.\<close>

definition parseMoney :: "jsnum \<Rightarrow> jsnum" where
  "parseMoney n = (if isFinite n then Math_max (Fin 0) n else Fin 0)"

section \<open>The Date object of the runtime\<close>

text \<open>
  The program computes with \<^verbatim>\<open>Date\<close>. A time value is a number of milliseconds since
  1970-01-01T00:00:00Z; a \<^verbatim>\<open>Date\<close> object is \<open>int option\<close>, \<open>None\<close> being the invalid
  date (time value NaN). The calendar is the proleptic Gregorian one; the host's time zone is
  a fixed offset \<open>tza\<close> in milliseconds (no daylight saving changes).
\<close>

definition msPerDay :: int where
  "msPerDay = 86400000"

definition Day :: "int \<Rightarrow> int" where
  "Day t = t div msPerDay"

definition TimeWithinDay :: "int \<Rightarrow> int" where
  "TimeWithinDay t = t mod msPerDay"

text \<open>
  The day number of year \<open>y\<close>, month \<open>m\<close> (1 to 12), day \<open>d\<close>, counted from 1970-01-01.
  Years are counted from 1 March, so that the leap day is the last day of its year.
\<close>

definition days_from_civil :: "int \<Rightarrow> int \<Rightarrow> int \<Rightarrow> int" where
  "days_from_civil y m d =
     (let y1 = (if m \<le> 2 then y - 1 else y);
          mp = (if m \<le> 2 then m + 9 else m - 3)
      in 365 * y1 + y1 div 4 - y1 div 100 + y1 div 400
         + (153 * mp + 2) div 5 + d - 1 - 719468)"

text \<open>The inverse: year, month (1 to 12) and day of the month of a day number.\<close>

definition civil_from_days :: "int \<Rightarrow> int \<times> int \<times> int" where
  "civil_from_days z =
     (let z1 = z + 719468;
          era = z1 div 146097;
          doe = z1 mod 146097;
          c = min 3 (doe div 36524);
          doc = doe - 36524 * c;
          q = doc div 1461;
          s = doc mod 1461;
          k = min 3 (s div 365);
          doy = s - 365 * k;
          mp = (5 * doy + 2) div 153;
          d = doy - (153 * mp + 2) div 5 + 1;
          m = (if mp < 10 then mp + 3 else mp - 9);
          y1 = 400 * era + 100 * c + 4 * q + k
      in (if m \<le> 2 then y1 + 1 else y1, m, d))"

definition isLeapYear :: "int \<Rightarrow> bool" where
  "isLeapYear y = (y mod 4 = 0 \<and> (y mod 100 \<noteq> 0 \<or> y mod 400 = 0))"

definition DaysInMonth :: "int \<Rightarrow> int \<Rightarrow> int" where
  "DaysInMonth y m =
     (if m = 2 then (if isLeapYear y then 29 else 28)
      else if m = 4 \<or> m = 6 \<or> m = 9 \<or> m = 11 then 30 else 31)"

definition validDate :: "int \<Rightarrow> int \<Rightarrow> int \<Rightarrow> bool" where
  "validDate y m d = (1 \<le> m \<and> m \<le> 12 \<and> 1 \<le> d \<and> d \<le> DaysInMonth y m)"

definition YearFromTime :: "int \<Rightarrow> int" where
  "YearFromTime t = (case civil_from_days (Day t) of (y, m, d) \<Rightarrow> y)"

text \<open>Months of the runtime count from 0.\<close>

definition MonthFromTime :: "int \<Rightarrow> int" where
  "MonthFromTime t = (case civil_from_days (Day t) of (y, m, d) \<Rightarrow> m - 1)"

definition DateFromTime :: "int \<Rightarrow> int" where
  "DateFromTime t = (case civil_from_days (Day t) of (y, m, d) \<Rightarrow> d)"

text \<open>A month outside 0 to 11 carries into the year, a day outside the month into the
  following months.\<close>

definition MakeDay :: "int \<Rightarrow> int \<Rightarrow> int \<Rightarrow> int" where
  "MakeDay year month date =
     days_from_civil (year + month div 12) (month mod 12 + 1) 1 + date - 1"

definition MakeDate :: "int \<Rightarrow> int \<Rightarrow> int" where
  "MakeDate day time = day * msPerDay + time"

definition TimeClip :: "int \<Rightarrow> int option" where
  "TimeClip t = (if \<bar>t\<bar> \<le> 8640000000000000 then Some t else None)"

definition LocalTime :: "int \<Rightarrow> int \<Rightarrow> int" where
  "LocalTime tza t = t + tza"

definition UTC :: "int \<Rightarrow> int \<Rightarrow> int" where
  "UTC tza t = t - tza"

text \<open>
  \<^verbatim>\<open>new Date(dateStr)\<close> on the date-only forms of the ISO format: a year of four digits,
  or a sign and six digits, then optionally a month and a day. They denote midnight UTC.
  A month or a day that does not exist gives the invalid date. (Engines differ on day 29 to 31
  of a shorter month, which some carry into the next month; the statements below about valid
  and invalid dates only use a month outside 1 to 12 or a day outside 1 to 31 as invalid, and
  a day that the month has as valid.)
  The date-time forms and the engines' fallback formats are not modelled: they are
  \<open>None\<close> here, and neither \<^verbatim>\<open>validateBillForm\<close> nor \<^verbatim>\<open>nextRecurringDate\<close> lets one
  into the collection.
\<close>

definition dateValue :: "int \<Rightarrow> nat \<Rightarrow> nat \<Rightarrow> int option" where
  "dateValue y m d =
     (if validDate y (int m) (int d)
      then TimeClip (days_from_civil y (int m) (int d) * msPerDay) else None)"

fun parseRest :: "int \<Rightarrow> string \<Rightarrow> int option" where
  "parseRest y [] = dateValue y 1 1"
| "parseRest y [h, a, b] =
     (if h = CHR ''-'' then
        (case readDigits [a, b] of None \<Rightarrow> None | Some m \<Rightarrow> dateValue y m 1)
      else None)"
| "parseRest y [h, a, b, h', c, d] =
     (if h = CHR ''-'' \<and> h' = CHR ''-'' then
        (case readDigits [a, b] of None \<Rightarrow> None
         | Some m \<Rightarrow> (case readDigits [c, d] of None \<Rightarrow> None | Some dd \<Rightarrow> dateValue y m dd))
      else None)"
| "parseRest y r = None"

definition Date_parse :: "string \<Rightarrow> int option" where
  "Date_parse s =
     (case s of
        [] \<Rightarrow> None
      | c # cs \<Rightarrow>
          if c = CHR ''+'' \<or> c = CHR ''-'' then
            (if length cs < 6 then None
             else case readDigits (take 6 cs) of
                    None \<Rightarrow> None
                  | Some y \<Rightarrow>
                      if c = CHR ''-'' then
                        (if y = 0 then None else parseRest (- int y) (drop 6 cs))
                      else parseRest (int y) (drop 6 cs))
          else
            (if length s < 4 then None
             else case readDigits (take 4 s) of
                    None \<Rightarrow> None
                  | Some y \<Rightarrow> parseRest (int y) (drop 4 s)))"

text \<open>\<^verbatim>\<open>d.toISOString()\<close> of a valid date: the UTC fields, the year on four digits when it
  is within 0 to 9999 and else as a sign and six digits.\<close>

definition yearString :: "int \<Rightarrow> string" where
  "yearString y =
     (if 0 \<le> y \<and> y \<le> 9999 then pad 4 (nat y)
      else if y < 0 then CHR ''-'' # pad 6 (nat (- y))
      else CHR ''+'' # pad 6 (nat y))"

definition toISOString :: "int \<Rightarrow> string" where
  "toISOString t =
     (case civil_from_days (Day t) of
        (y, m, d) \<Rightarrow>
          (let w = nat (TimeWithinDay t)
           in yearString y @ ''-'' @ pad 2 (nat m) @ ''-'' @ pad 2 (nat d) @ ''T''
              @ pad 2 (w div 3600000) @ '':'' @ pad 2 (w div 60000 mod 60) @ '':''
              @ pad 2 (w div 1000 mod 60) @ ''.'' @ pad 3 (w mod 1000) @ ''Z''))"

text \<open>The getters and setters the program calls, on local time.\<close>

definition getMonth :: "int \<Rightarrow> int option \<Rightarrow> int option" where
  "getMonth tza d = map_option (\<lambda>t. MonthFromTime (LocalTime tza t)) d"

definition getFullYear :: "int \<Rightarrow> int option \<Rightarrow> int option" where
  "getFullYear tza d = map_option (\<lambda>t. YearFromTime (LocalTime tza t)) d"

definition setMonth :: "int \<Rightarrow> int option \<Rightarrow> int option \<Rightarrow> int option" where
  "setMonth tza d month =
     (case d of
        None \<Rightarrow> None
      | Some t0 \<Rightarrow>
          (case month of
             None \<Rightarrow> None
           | Some m \<Rightarrow>
               (let t = LocalTime tza t0
                in TimeClip (UTC tza (MakeDate (MakeDay (YearFromTime t) m (DateFromTime t))
                                               (TimeWithinDay t))))))"

definition setFullYear :: "int \<Rightarrow> int option \<Rightarrow> int option \<Rightarrow> int option" where
  "setFullYear tza d year =
     (case year of
        None \<Rightarrow> None
      | Some y \<Rightarrow>
          (let t = (case d of None \<Rightarrow> 0 | Some t0 \<Rightarrow> LocalTime tza t0)
           in TimeClip (UTC tza (MakeDate (MakeDay y (MonthFromTime t) (DateFromTime t))
                                          (TimeWithinDay t)))))"

text \<open>\<^verbatim>\<open>d.setHours(0, 0, 0, 0)\<close>: midnight of the local day.\<close>

definition setHours0 :: "int \<Rightarrow> int option \<Rightarrow> int option" where
  "setHours0 tza d =
     (case d of
        None \<Rightarrow> None
      | Some t0 \<Rightarrow> TimeClip (UTC tza (MakeDate (Day (LocalTime tza t0)) 0)))"

text \<open>
  \<^verbatim>\<open>Math.round(diff / (1000 * 60 * 60 * 24))\<close>: the nearest integer, a half rounding up.
  At a fixed time zone offset both midnights differ by whole days, so the division is exact.
\<close>

definition roundDays :: "int \<Rightarrow> int" where
  "roundDays diff = (2 * diff + msPerDay) div (2 * msPerDay)"

section \<open>Clock and date utilities of the program\<close>

text \<open>
  Lines 60-67. \<open>now\<close> is the time value that \<^verbatim>\<open>new Date()\<close> reads from the clock. The
  result is \<open>None\<close> where the program's number is NaN.
\<close>

definition daysUntil :: "int \<Rightarrow> int \<Rightarrow> string \<Rightarrow> int option" where
  "daysUntil tza now dateStr =
     (let today = setHours0 tza (Some now);
          d = setHours0 tza (Date_parse dateStr)
      in case d of
           None \<Rightarrow> None
         | Some dt \<Rightarrow> (case today of None \<Rightarrow> None | Some tt \<Rightarrow> Some (roundDays (dt - tt))))"

text \<open>
  Lines 69-78. \<^verbatim>\<open>toISOString\<close> throws a RangeError on the invalid date; nothing in
  \<^verbatim>\<open>nextRecurringDate\<close> catches it.
\<close>

datatype js_error = RangeError

definition nextRecurringDate :: "int \<Rightarrow> string \<Rightarrow> Recurrence \<Rightarrow> js_error + string" where
  "nextRecurringDate tza dateStr rec =
     (if rec = Rec_none then Inr dateStr
      else
        (let d = Date_parse dateStr;
             d' = (if rec = Rec_monthly
                   then setMonth tza d (map_option (\<lambda>m. m + 1) (getMonth tza d))
                   else setFullYear tza d (map_option (\<lambda>y. y + 1) (getFullYear tza d)))
         in case d' of
              None \<Rightarrow> Inl RangeError
            | Some t \<Rightarrow> Inr (take 10 (toISOString t))))"

section \<open>The bill collection\<close>

text \<open>\<^verbatim>\<open>xs.findIndex(p)\<close>: the index of the first element that satisfies \<open>p\<close>, or -1.\<close>

fun findIndex :: "('a \<Rightarrow> bool) \<Rightarrow> 'a list \<Rightarrow> int" where
  "findIndex p [] = - 1"
| "findIndex p (x # xs) =
     (if p x then 0 else (let i = findIndex p xs in if i < 0 then - 1 else i + 1))"

text \<open>Lines 290-304. The regular expression of line 300 is \<^verbatim>\<open>/^\d{4}-\d{2}-\d{2}$/\<close>.\<close>

fun dateRegex :: "string \<Rightarrow> bool" where
  "dateRegex [y1, y2, y3, y4, h1, m1, m2, h2, d1, d2] =
     (isDigit y1 \<and> isDigit y2 \<and> isDigit y3 \<and> isDigit y4 \<and> h1 = CHR ''-''
      \<and> isDigit m1 \<and> isDigit m2 \<and> h2 = CHR ''-'' \<and> isDigit d1 \<and> isDigit d2)"
| "dateRegex s = False"

definition validateBillForm :: "Form \<Rightarrow> string option" where
  "validateBillForm f =
     (let nm = trim (nameEl f);
          amt = parseMoney (amountEl f);
          due = dueEl f
      in if nm = [] then Some ''Bill name is required''
         else if js_le amt (Fin 0) then Some ''Amount must be greater than 0''
         else if due = [] then Some ''Due date is required''
         else if \<not> dateRegex due then Some ''Invalid due date format''
         else None)"

text \<open>
  Lines 306-342. \<open>uid\<close> is the identifier \<^verbatim>\<open>crypto.randomUUID()\<close> would return and \<open>now\<close>
  the string \<^verbatim>\<open>new Date().toISOString()\<close>. The result is the returned boolean, the message
  given to \<^verbatim>\<open>showError\<close> if any, and the collection afterwards.
\<close>

definition upsertBillFromForm ::
    "string \<Rightarrow> string \<Rightarrow> Form \<Rightarrow> Bill list \<Rightarrow> bool \<times> string option \<times> Bill list" where
  "upsertBillFromForm uid now f bills =
     (case validateBillForm f of
        Some validationError \<Rightarrow> (False, Some validationError, bills)
      | None \<Rightarrow>
          (let id' = (if idEl f \<noteq> [] then idEl f else uid);
               existingIdx = findIndex (\<lambda>b. bill_id b = id') bills;
               record = \<lparr> bill_id = id',
                          name = trim (nameEl f),
                          amount = parseMoney (amountEl f),
                          dueDate = dueEl f,
                          recurrence = recurrenceEl f,
                          bill_notes = (if trim (notesEl f) \<noteq> [] then Some (trim (notesEl f)) else None),
                          paid = (if existingIdx \<ge> 0 then paid (bills ! nat existingIdx) else False),
                          createdAt = (if existingIdx \<ge> 0 then createdAt (bills ! nat existingIdx) else now),
                          updatedAt = now \<rparr>
           in (True, None,
               if existingIdx \<ge> 0 then bills[nat existingIdx := record] else bills @ [record])))"

text \<open>
  Lines 399-443, the click handler of the bill list. \<open>id'\<close> and \<open>action\<close> are the button's
  attributes (\<open>None\<close> for a missing one), \<open>confirmed\<close> the user's answer to the
  \<^verbatim>\<open>confirm\<close> dialog and \<open>now\<close> the string \<^verbatim>\<open>new Date().toISOString()\<close>. The handler
  mutates the bill in place, so the collection it leaves is returned in every case, with what
  the handler did last: it returned at a guard, it filled the form, the user declined, it
  went on to \<^verbatim>\<open>save()\<close>, or an exception reached the \<^verbatim>\<open>catch\<close> and its message was shown.
\<close>

datatype outcome = Returned | FormFilled | Declined | Saved | ShowedError string

definition billListClick ::
    "int \<Rightarrow> string \<Rightarrow> bool \<Rightarrow> string option \<Rightarrow> string option \<Rightarrow> Bill list
       \<Rightarrow> outcome \<times> Bill list" where
  "billListClick tza now confirmed id' action bills =
     (case id' of
        None \<Rightarrow> (Returned, bills)
      | Some i \<Rightarrow>
     (case action of
        None \<Rightarrow> (Returned, bills)
      | Some a \<Rightarrow>
          if i = [] \<or> a = [] then (Returned, bills)
          else
            (let idx = findIndex (\<lambda>b. bill_id b = i) bills
             in if idx < 0 then (Returned, bills)
                else
                  (let b = bills ! nat idx
                   in if a = ''edit'' then (FormFilled, bills)
                      else if a = ''delete'' then
                        (if confirmed then (Saved, take (nat idx) bills @ drop (nat idx + 1) bills)
                         else (Declined, bills))
                      else if a = ''toggle-paid'' then
                        (let b1 = b\<lparr> paid := \<not> paid b, updatedAt := now \<rparr>
                         in if paid b1 \<and> recurrence b1 \<noteq> Rec_none then
                              (case nextRecurringDate tza (dueDate b1) (recurrence b1) of
                                 Inl e \<Rightarrow> (ShowedError (''Failed to '' @ a @ '' bill''),
                                           bills[nat idx := b1])
                               | Inr s \<Rightarrow> (Saved, bills[nat idx := b1\<lparr> dueDate := s, paid := False \<rparr>]))
                            else (Saved, bills[nat idx := b1]))
                      else (Returned, bills)))))"

definition togglePaid :: "int \<Rightarrow> string \<Rightarrow> string \<Rightarrow> Bill list \<Rightarrow> outcome \<times> Bill list" where
  "togglePaid tza now i bills = billListClick tza now False (Some i) (Some ''toggle-paid'') bills"

definition deleteBill :: "bool \<Rightarrow> string \<Rightarrow> Bill list \<Rightarrow> outcome \<times> Bill list" where
  "deleteBill confirmed i bills = billListClick 0 [] confirmed (Some i) (Some ''delete'') bills"

text \<open>Whether the handler ended in its \<^verbatim>\<open>catch\<close>, showing an error.\<close>

definition reportsError :: "outcome \<Rightarrow> bool" where
  "reportsError r = (case r of ShowedError m \<Rightarrow> True | _ \<Rightarrow> False)"

section \<open>Views\<close>

text \<open>A comparison of the program on a number that may be NaN: false on NaN.\<close>

definition cmp :: "(int \<Rightarrow> bool) \<Rightarrow> int option \<Rightarrow> bool" where
  "cmp p d = (case d of None \<Rightarrow> False | Some n \<Rightarrow> p n)"


text \<open>Lines 171-178.\<close>

definition dueClass :: "int \<Rightarrow> int \<Rightarrow> Bill \<Rightarrow> string" where
  "dueClass tza now b =
     (let d = daysUntil tza now (dueDate b)
      in if paid b then ''paid''
         else if cmp (\<lambda>n. n < 0) d then ''overdue''
         else if cmp (\<lambda>n. n \<le> 7) d then ''due''
         else ''ok'')"



text \<open>
  Lines 253-288. \<open>granted\<close> is the result of \<^verbatim>\<open>ensureNotifPermission()\<close> and \<open>fmtMoney\<close> the
  locale's currency format of line 57. The result is the notification sent, title and body, if
  one is sent.
\<close>

definition dueNow :: "int \<Rightarrow> int \<Rightarrow> Bill list \<Rightarrow> Bill list" where
  "dueNow tza now bills =
     filter (\<lambda>b. if paid b then False
                 else (let days = daysUntil tza now (dueDate b)
                       in cmp (\<lambda>n. n \<le> 0) days \<and> cmp (\<lambda>n. n \<ge> - 3) days)) bills"

definition dueText :: "int option \<Rightarrow> string" where
  "dueText days =
     (if days = Some 0 then ''today''
      else (case days of None \<Rightarrow> ''NaN'' | Some n \<Rightarrow> showInt (- n)) @ ''d overdue'')"

definition notifyLine :: "(jsnum \<Rightarrow> string) \<Rightarrow> int \<Rightarrow> int \<Rightarrow> Bill \<Rightarrow> string" where
  "notifyLine fmtMoney tza now b =
     name b @ '' ('' @ fmtMoney (amount b) @ '') '' @ dueText (daysUntil tza now (dueDate b))"

fun join :: "string \<Rightarrow> string list \<Rightarrow> string" where
  "join sep [] = []"
| "join sep [x] = x"
| "join sep (x # y # ys) = x @ sep @ join sep (y # ys)"

definition maybeNotifyDue ::
    "(jsnum \<Rightarrow> string) \<Rightarrow> int \<Rightarrow> int \<Rightarrow> bool \<Rightarrow> Bill list \<Rightarrow> (string \<times> string) option" where
  "maybeNotifyDue fmtMoney tza now granted bills =
     (if \<not> granted then None
      else
        (let due = dueNow tza now bills
         in if length due = 0 then None
            else Some (showInt (int (length due)) @ '' Bill'' @ (if length due > 1 then ''s'' else [])
                         @ '' Due'',
                       join [CHR 0x0A] (map (notifyLine fmtMoney tza now) (take 4 due)))))"

section \<open>Example data\<close>

definition exampleBill :: Bill where
  "exampleBill = \<lparr> bill_id = ''a'', name = ''Rent'', amount = Fin 100, dueDate = ''2024-06-08'',
      recurrence = Rec_none, bill_notes = None, paid = False,
      createdAt = ''2024-05-01T09:00:00.000Z'', updatedAt = ''2024-05-01T09:00:00.000Z'' \<rparr>"

definition exampleForm :: Form where
  "exampleForm = \<lparr> idEl = ''a'', nameEl = '' Water '', amountEl = Fin 30, dueEl = ''2024-07-15'',
      recurrenceEl = Rec_monthly, notesEl = '' '' \<rparr>"

definition recurringBill :: Bill where
  "recurringBill = exampleBill\<lparr> dueDate := ''2024-01-31'', recurrence := Rec_monthly \<rparr>"

definition invalidDateBill :: Bill where
  "invalidDateBill = exampleBill\<lparr> dueDate := ''2024-13-45'', recurrence := Rec_monthly \<rparr>"

definition marchBill :: Bill where
  "marchBill = exampleBill\<lparr> dueDate := ''2024-03-01'', recurrence := Rec_monthly \<rparr>"


section \<open>Notions of the specification\<close>




text \<open>The selection and the summary line of the specification's section 4.5.\<close>

definition selectDue_spec :: "int \<Rightarrow> int \<Rightarrow> Bill list \<Rightarrow> Bill list" where
  "selectDue_spec tza now bills =
     filter (\<lambda>b. paid b = False
                 \<and> (case daysUntil tza now (dueDate b) of
                       None \<Rightarrow> False | Some d \<Rightarrow> - 3 \<le> d \<and> d \<le> 0)) bills"

definition summaryLine_spec :: "(jsnum \<Rightarrow> string) \<Rightarrow> Bill \<Rightarrow> int \<Rightarrow> string" where
  "summaryLine_spec fmtMoney b d =
     name b @ '' ('' @ fmtMoney (amount b) @ '') ''
       @ (if d = 0 then ''today'' else showInt (- d) @ ''d overdue'')"

text \<open>The year, month and day that a string of four, two and two digits writes.\<close>

fun dateFields :: "string \<Rightarrow> (nat \<times> nat \<times> nat) option" where
  "dateFields [y1, y2, y3, y4, h1, m1, m2, h2, d1, d2] =
     Some (1000 * digitVal y1 + 100 * digitVal y2 + 10 * digitVal y3 + digitVal y4,
           10 * digitVal m1 + digitVal m2, 10 * digitVal d1 + digitVal d2)"
| "dateFields s = None"

section \<open>Auxiliary notions for the calendar\<close>

text \<open>The number of days in the years before year \<open>y + 1\<close>, up to a constant.\<close>

definition yearDays :: "int \<Rightarrow> int" where
  "yearDays y = 365 * y + y div 4 - y div 100 + y div 400"

section \<open>Reachable collections\<close>

text \<open>
  The collections the program can reach from the empty one by submitting the form, deleting
  and toggling, with any inputs.
\<close>

inductive_set reachable :: "Bill list set" where
  empty: "[] \<in> reachable"
| upsert: "bills \<in> reachable \<Longrightarrow> upsertBillFromForm uid now f bills = (ok, msg, bills')
            \<Longrightarrow> bills' \<in> reachable"
| delete: "bills \<in> reachable \<Longrightarrow> deleteBill confirmed i bills = (r, bills')
            \<Longrightarrow> bills' \<in> reachable"
| toggle: "bills \<in> reachable \<Longrightarrow> togglePaid tza now i bills = (r, bills')
            \<Longrightarrow> bills' \<in> reachable"

text \<open>
  The same, where no submitted form makes a paid bill recurring and no toggle ends in the
  handler's \<^verbatim>\<open>catch\<close>.
\<close>

inductive_set reachable_guarded :: "Bill list set" where
  empty: "[] \<in> reachable_guarded"
| upsert: "bills \<in> reachable_guarded \<Longrightarrow> upsertBillFromForm uid now f bills = (ok, msg, bills')
            \<Longrightarrow> (\<forall>b\<in>set bills. bill_id b = (if idEl f \<noteq> [] then idEl f else uid) \<and> paid b
                    \<longrightarrow> recurrenceEl f = Rec_none)
            \<Longrightarrow> bills' \<in> reachable_guarded"
| delete: "bills \<in> reachable_guarded \<Longrightarrow> deleteBill confirmed i bills = (r, bills')
            \<Longrightarrow> bills' \<in> reachable_guarded"
| toggle: "bills \<in> reachable_guarded \<Longrightarrow> togglePaid tza now i bills = (r, bills')
            \<Longrightarrow> \<not> reportsError r \<Longrightarrow> bills' \<in> reachable_guarded"

text \<open>No bill is recurring and paid.\<close>

definition recurringUnpaid :: "Bill list \<Rightarrow> bool" where
  "recurringUnpaid bills = (\<forall>b\<in>set bills. \<not> (recurrence b \<noteq> Rec_none \<and> paid b))"

section \<open>Looking a bill up\<close>

lemma findIndex_ge: "- 1 \<le> findIndex p xs"
  by (induction xs) (auto simp: Let_def)

lemma findIndex_neg_iff: "findIndex p xs < 0 \<longleftrightarrow> (\<forall>x\<in>set xs. \<not> p x)"
  by (induction xs) (use findIndex_ge in \<open>auto simp: Let_def\<close>)

lemma findIndex_absent: "\<forall>x\<in>set xs. \<not> p x \<Longrightarrow> findIndex p xs = - 1"
  by (induction xs) (auto simp: Let_def)

lemma findIndex_first:
  "0 \<le> findIndex p xs \<Longrightarrow>
     nat (findIndex p xs) < length xs \<and> p (xs ! nat (findIndex p xs))
     \<and> (\<forall>j < nat (findIndex p xs). \<not> p (xs ! j))"
proof (induction xs)
  case Nil
  then show ?case by simp
next
  case (Cons x xs)
  show ?case
  proof (cases rule: case_split [of "p x"])
    case True
    then show ?thesis by simp
  next
    case False
    with Cons.prems have ge: "0 \<le> findIndex p xs"
      by (auto simp: Let_def split: if_splits)
    then have eq: "findIndex p (x # xs) = findIndex p xs + 1"
      using False by (simp add: Let_def)
    have n: "nat (findIndex p xs + 1) = Suc (nat (findIndex p xs))"
      using ge by simp
    from Cons.IH [OF ge] show ?thesis
      unfolding eq n using False by (auto simp: less_Suc_eq_0_disj)
  qed
qed

lemma findIndex_at:
  assumes "i < length xs" "p (xs ! i)" "\<forall>j<i. \<not> p (xs ! j)"
  shows "findIndex p xs = int i"
  using assms
proof (induction xs arbitrary: i)
  case Nil
  then show ?case by simp
next
  case (Cons x xs)
  show ?case
  proof (cases i)
    case 0
    with Cons.prems show ?thesis by simp
  next
    case (Suc k)
    with Cons.prems have npx: "\<not> p x" by auto
    have "findIndex p xs = int k"
      using Cons.prems Suc by (intro Cons.IH) auto
    then show ?thesis using npx Suc by (simp add: Let_def)
  qed
qed

section \<open>Toggling a bill that is not there\<close>

text \<open>
  C3 (as the code has it). For an id that no bill of the collection carries, the toggle-paid
  handler returns at its guard \<^verbatim>\<open>if (idx < 0) return\<close>: it shows no error, saves nothing
  and leaves the collection as it was.
\<close>

theorem togglePaid_absent_silent:
  assumes "\<forall>b\<in>set bills. bill_id b \<noteq> i"
  shows "togglePaid tza now i bills = (Returned, bills)"
proof -
  have "findIndex (\<lambda>b. bill_id b = i) bills < 0"
    using assms by (simp add: findIndex_neg_iff)
  then show ?thesis
    by (simp add: togglePaid_def billListClick_def Let_def)
qed

theorem togglePaid_absent_silent_witness:
  "togglePaid 0 ''2024-06-01T10:00:00.000Z'' ''b'' [exampleBill] = (Returned, [exampleBill])"
  using togglePaid_absent_silent [of "[exampleBill]" "''b''" 0 "''2024-06-01T10:00:00.000Z''"]
  by (simp add: exampleBill_def)

text \<open>C3 as stated asks for an error on a missing id; the handler reports none.\<close>

theorem togglePaid_absent_counterexample:
  "\<not> reportsError (fst (togglePaid 0 ''2024-06-01T10:00:00.000Z'' ''b'' [exampleBill]))"
  by (simp add: togglePaid_def billListClick_def Let_def exampleBill_def reportsError_def)

section \<open>Validation of the form\<close>

lemma dateRegex_nonempty: "dateRegex s \<Longrightarrow> s \<noteq> []"
  by auto

lemma validateBillForm_None_iff:
  "validateBillForm f = None \<longleftrightarrow>
     \<not> (trim (nameEl f) = [] \<or> js_le (parseMoney (amountEl f)) (Fin 0) \<or> \<not> dateRegex (dueEl f))"
  using dateRegex_nonempty [of "dueEl f"] by (auto simp: validateBillForm_def Let_def)

lemma trim_blank: "trim '' '' = []" "trim '' Water '' = ''Water''"
  by (simp_all add: trim_def isWhiteSpace_def)

text \<open>
  C7. \<^verbatim>\<open>upsertBillFromForm\<close> fails (returns false, having shown the validation message)
  exactly when the trimmed name is empty, the amount read by \<^verbatim>\<open>parseMoney\<close> is at most 0, or
  the due date does not match the pattern of four, two and two digits (the empty string does
  not); and a failed call leaves the collection as it was.
\<close>

theorem upsert_rejects_exactly:
  "(fst (upsertBillFromForm uid now f bills) = False
      \<longleftrightarrow> (trim (nameEl f) = [] \<or> js_le (parseMoney (amountEl f)) (Fin 0) \<or> \<not> dateRegex (dueEl f)))
   \<and> (fst (upsertBillFromForm uid now f bills) = False
      \<longrightarrow> (\<exists>msg. upsertBillFromForm uid now f bills = (False, Some msg, bills)))"
proof (cases rule: case_split [of "validateBillForm f = None"])
  case True
  then have "fst (upsertBillFromForm uid now f bills) = True"
    by (simp add: upsertBillFromForm_def Let_def)
  then show ?thesis using True validateBillForm_None_iff [of f] by simp
next
  case False
  then obtain msg where m: "validateBillForm f = Some msg" by auto
  then have "upsertBillFromForm uid now f bills = (False, Some msg, bills)"
    by (simp add: upsertBillFromForm_def)
  then show ?thesis using False validateBillForm_None_iff [of f] by simp
qed

theorem upsert_rejects_exactly_witness:
  "trim (nameEl (exampleForm\<lparr> nameEl := '' '' \<rparr>)) = []
   \<and> upsertBillFromForm ''u'' ''2024-06-01T10:00:00.000Z'' (exampleForm\<lparr> nameEl := '' '' \<rparr>) [exampleBill]
       = (False, Some ''Bill name is required'', [exampleBill])"
  using upsert_rejects_exactly [of "''u''" "''2024-06-01T10:00:00.000Z''" "exampleForm\<lparr> nameEl := '' '' \<rparr>" "[exampleBill]"]
  by (simp add: exampleForm_def upsertBillFromForm_def validateBillForm_def trim_blank)

section \<open>Inserting and replacing\<close>

lemma exampleForm_valid: "validateBillForm exampleForm = None"
  by (simp add: validateBillForm_def exampleForm_def trim_blank parseMoney_def isFinite_def isDigit_def)

text \<open>
  C8. For a form that passes the validation, with \<open>id'\<close> the id of the form or else the fresh
  one: when no bill carries \<open>id'\<close>, exactly one record is appended, unpaid, created and updated
  \<open>now\<close>; when the bill at index \<open>k\<close> is the one that carries it, that record is replaced by
  one with the form's name, amount, due date, recurrence and notes, updated \<open>now\<close>, which keeps
  the old record's \<open>paid\<close> and \<open>createdAt\<close>, and no other bill changes.
\<close>

theorem upsert_effect:
  assumes valid: "validateBillForm f = None"
    and id': "id' = (if idEl f \<noteq> [] then idEl f else uid)"
    and r: "r = \<lparr> bill_id = id', name = trim (nameEl f), amount = parseMoney (amountEl f),
                  dueDate = dueEl f, recurrence = recurrenceEl f,
                  bill_notes = (if trim (notesEl f) \<noteq> [] then Some (trim (notesEl f)) else None),
                  paid = False, createdAt = now, updatedAt = now \<rparr>"
  shows "((\<forall>b\<in>set bills. bill_id b \<noteq> id') \<longrightarrow>
            upsertBillFromForm uid now f bills = (True, None, bills @ [r]))
       \<and> (\<forall>k. k < length bills \<and> bill_id (bills ! k) = id' \<and> (\<forall>j<k. bill_id (bills ! j) \<noteq> id') \<longrightarrow>
            upsertBillFromForm uid now f bills
              = (True, None, bills[k := r\<lparr> paid := paid (bills ! k), createdAt := createdAt (bills ! k) \<rparr>])
            \<and> length (snd (snd (upsertBillFromForm uid now f bills))) = length bills
            \<and> (\<forall>j<length bills. j \<noteq> k \<longrightarrow> snd (snd (upsertBillFromForm uid now f bills)) ! j = bills ! j))"
proof -
  have new: "upsertBillFromForm uid now f bills = (True, None, bills @ [r])"
    if "\<forall>b\<in>set bills. bill_id b \<noteq> id'"
  proof -
    have "findIndex (\<lambda>b. bill_id b = id') bills = - 1"
      using that by (simp add: findIndex_absent)
    then show ?thesis
      using valid id' r by (simp add: upsertBillFromForm_def Let_def)
  qed
  have old: "upsertBillFromForm uid now f bills
      = (True, None, bills[k := r\<lparr> paid := paid (bills ! k), createdAt := createdAt (bills ! k) \<rparr>])"
    if "k < length bills \<and> bill_id (bills ! k) = id' \<and> (\<forall>j<k. bill_id (bills ! j) \<noteq> id')" for k
  proof -
    have idx: "findIndex (\<lambda>b. bill_id b = id') bills = int k"
      using that by (intro findIndex_at) auto
    show ?thesis
      using valid id' r idx by (simp add: upsertBillFromForm_def Let_def)
  qed
  show ?thesis
  proof (intro conjI allI impI)
    fix k j
    assume k: "k < length bills \<and> bill_id (bills ! k) = id' \<and> (\<forall>j<k. bill_id (bills ! j) \<noteq> id')"
    show "upsertBillFromForm uid now f bills
      = (True, None, bills[k := r\<lparr> paid := paid (bills ! k), createdAt := createdAt (bills ! k) \<rparr>])"
      using old [OF k] .
    show "length (snd (snd (upsertBillFromForm uid now f bills))) = length bills"
      unfolding old [OF k] by simp
    assume "j < length bills" "j \<noteq> k"
    then show "snd (snd (upsertBillFromForm uid now f bills)) ! j = bills ! j"
      unfolding old [OF k] by simp
  qed (use new in simp)
qed

theorem upsert_effect_witness:
  "validateBillForm exampleForm = None
   \<and> upsertBillFromForm ''u'' ''2024-06-01T10:00:00.000Z'' exampleForm []
       = (True, None, [\<lparr> bill_id = ''a'', name = ''Water'', amount = Fin 30, dueDate = ''2024-07-15'',
            recurrence = Rec_monthly, bill_notes = None, paid = False,
            createdAt = ''2024-06-01T10:00:00.000Z'', updatedAt = ''2024-06-01T10:00:00.000Z'' \<rparr>])
   \<and> upsertBillFromForm ''u'' ''2024-06-01T10:00:00.000Z'' exampleForm [exampleBill\<lparr> paid := True \<rparr>]
       = (True, None, [\<lparr> bill_id = ''a'', name = ''Water'', amount = Fin 30, dueDate = ''2024-07-15'',
            recurrence = Rec_monthly, bill_notes = None, paid = True,
            createdAt = ''2024-05-01T09:00:00.000Z'', updatedAt = ''2024-06-01T10:00:00.000Z'' \<rparr>])"
proof -
  let ?now = "''2024-06-01T10:00:00.000Z''"
  let ?r = "\<lparr> bill_id = ''a'', name = ''Water'', amount = Fin 30, dueDate = ''2024-07-15'',
            recurrence = Rec_monthly, bill_notes = None, paid = False,
            createdAt = ?now, updatedAt = ?now \<rparr>"
  have id': "''a'' = (if idEl exampleForm \<noteq> [] then idEl exampleForm else ''u'')"
    by (simp add: exampleForm_def)
  have r: "?r = \<lparr> bill_id = ''a'', name = trim (nameEl exampleForm),
                  amount = parseMoney (amountEl exampleForm),
                  dueDate = dueEl exampleForm, recurrence = recurrenceEl exampleForm,
                  bill_notes = (if trim (notesEl exampleForm) \<noteq> [] then Some (trim (notesEl exampleForm)) else None),
                  paid = False, createdAt = ?now, updatedAt = ?now \<rparr>"
    by (simp add: exampleForm_def trim_blank parseMoney_def isFinite_def)
  note a0 = upsert_effect [OF exampleForm_valid id' r]
  note a = a0 [where bills = "[]"]
  note b = a0 [where bills = "[exampleBill\<lparr> paid := True \<rparr>]"]
  from a have 1: "upsertBillFromForm ''u'' ?now exampleForm [] = (True, None, [?r])"
    by simp
  from b have 2: "upsertBillFromForm ''u'' ?now exampleForm [exampleBill\<lparr> paid := True \<rparr>]
       = (True, None, [?r\<lparr> paid := True, createdAt := ''2024-05-01T09:00:00.000Z'' \<rparr>])"
    by (simp add: exampleBill_def)
  show ?thesis using exampleForm_valid 1 2 by simp
qed

section \<open>Deleting\<close>

lemma deleteBill_absent:
  assumes "\<forall>b\<in>set bills. bill_id b \<noteq> i"
  shows "deleteBill confirmed i bills = (Returned, bills)"
proof -
  have "findIndex (\<lambda>b. bill_id b = i) bills < 0"
    using assms by (simp add: findIndex_neg_iff)
  then show ?thesis
    by (simp add: deleteBill_def billListClick_def Let_def)
qed

lemma deleteBill_present:
  assumes "\<exists>b\<in>set bills. bill_id b = i" "i \<noteq> []"
  shows "\<exists>xs b ys. bills = xs @ b # ys \<and> bill_id b = i \<and> (\<forall>x\<in>set xs. bill_id x \<noteq> i)
           \<and> deleteBill True i bills = (Saved, xs @ ys)
           \<and> deleteBill False i bills = (Declined, bills)"
proof -
  define idx where "idx = findIndex (\<lambda>b. bill_id b = i) bills"
  have ge: "0 \<le> idx"
    using assms(1) findIndex_neg_iff [of "\<lambda>b. bill_id b = i" bills] unfolding idx_def by auto
  define n where "n = nat idx"
  have n: "n < length bills" "bill_id (bills ! n) = i" "\<forall>j<n. bill_id (bills ! j) \<noteq> i"
    using findIndex_first [OF ge [unfolded idx_def]] unfolding n_def idx_def by auto
  have split: "bills = take n bills @ bills ! n # drop (Suc n) bills"
    using n(1) by (simp add: id_take_nth_drop)
  have before: "\<forall>x\<in>set (take n bills). bill_id x \<noteq> i"
  proof
    fix x assume "x \<in> set (take n bills)"
    then obtain j where "j < n" "x = bills ! j"
      using n(1) by (auto simp: in_set_conv_nth)
    then show "bill_id x \<noteq> i" using n(3) by blast
  qed
  have del: "deleteBill True i bills = (Saved, take n bills @ drop (Suc n) bills)"
    using ge assms(2) by (simp add: deleteBill_def billListClick_def Let_def idx_def [symmetric] n_def)
  have dec: "deleteBill False i bills = (Declined, bills)"
    using ge assms(2) by (simp add: deleteBill_def billListClick_def Let_def idx_def [symmetric])
  show ?thesis
    using split n(2) before del dec by blast
qed

text \<open>
  C9 (as the code has it). In a collection with unique ids: deleting an id that no bill
  carries returns at the guard and changes nothing; deleting a present id removes exactly the
  bill that carries it once the user has confirmed the dialog, and changes nothing when the
  user declines; a second confirmed deletion of the same id is then a no-op without an error,
  so two deletions leave the collection one leaves.
\<close>

theorem deleteBill_idempotent:
  assumes "distinct (map bill_id bills)"
  shows "((\<forall>b\<in>set bills. bill_id b \<noteq> i) \<longrightarrow> deleteBill confirmed i bills = (Returned, bills))
       \<and> ((\<exists>b\<in>set bills. bill_id b = i) \<and> i \<noteq> [] \<longrightarrow>
             deleteBill True i bills = (Saved, filter (\<lambda>b. bill_id b \<noteq> i) bills)
             \<and> length (filter (\<lambda>b. bill_id b \<noteq> i) bills) + 1 = length bills
             \<and> deleteBill False i bills = (Declined, bills))
       \<and> deleteBill True i (snd (deleteBill True i bills))
             = (Returned, snd (deleteBill True i bills))"
proof -
  have present: "deleteBill True i bills = (Saved, filter (\<lambda>b. bill_id b \<noteq> i) bills)
      \<and> length (filter (\<lambda>b. bill_id b \<noteq> i) bills) + 1 = length bills
      \<and> deleteBill False i bills = (Declined, bills)"
    if "\<exists>b\<in>set bills. bill_id b = i" "i \<noteq> []"
  proof -
    from deleteBill_present [OF that] obtain xs b ys where
      s: "bills = xs @ b # ys" "bill_id b = i" "\<forall>x\<in>set xs. bill_id x \<noteq> i"
         "deleteBill True i bills = (Saved, xs @ ys)" "deleteBill False i bills = (Declined, bills)"
      by blast
    have "\<forall>y\<in>set ys. bill_id y \<noteq> i"
      using assms s(1,2) by (auto simp: image_iff)
    then have "filter (\<lambda>b. bill_id b \<noteq> i) bills = xs @ ys"
      using s(1,2,3) by (simp add: filter_id_conv)
    then show ?thesis using s by simp
  qed
  have twice: "deleteBill True i (snd (deleteBill True i bills)) = (Returned, snd (deleteBill True i bills))"
  proof (cases rule: case_split [of "(\<exists>b\<in>set bills. bill_id b = i) \<and> i \<noteq> []"])
    case True
    then have "snd (deleteBill True i bills) = filter (\<lambda>b. bill_id b \<noteq> i) bills"
      using present by simp
    then show ?thesis by (simp add: deleteBill_absent)
  next
    case False
    have "deleteBill True i bills = (Returned, bills)"
    proof (cases rule: case_split [of "i = []"])
      case True
      then show ?thesis by (simp add: deleteBill_def billListClick_def)
    next
      case False
      then show ?thesis using \<open>\<not> ((\<exists>b\<in>set bills. bill_id b = i) \<and> i \<noteq> [])\<close>
        by (intro deleteBill_absent) auto
    qed
    then show ?thesis by simp
  qed
  show ?thesis using deleteBill_absent [of bills i confirmed] present twice by blast
qed

theorem deleteBill_idempotent_witness:
  "distinct (map bill_id [exampleBill, exampleBill\<lparr> bill_id := ''b'' \<rparr>])
   \<and> deleteBill True ''a'' [exampleBill, exampleBill\<lparr> bill_id := ''b'' \<rparr>]
        = (Saved, [exampleBill\<lparr> bill_id := ''b'' \<rparr>])
   \<and> deleteBill True ''a'' [exampleBill\<lparr> bill_id := ''b'' \<rparr>]
        = (Returned, [exampleBill\<lparr> bill_id := ''b'' \<rparr>])"
proof -
  have d: "distinct (map bill_id [exampleBill, exampleBill\<lparr> bill_id := ''b'' \<rparr>])"
    by (simp add: exampleBill_def)
  from deleteBill_idempotent [OF d, of "''a''" True] show ?thesis
    using d by (simp add: exampleBill_def deleteBill_def billListClick_def Let_def)
qed

text \<open>C9 as stated removes the record whenever the id is present; a declined dialog keeps it.\<close>

theorem deleteBill_declined_counterexample:
  "deleteBill False ''a'' [exampleBill] = (Declined, [exampleBill])"
  by (simp add: deleteBill_def billListClick_def Let_def exampleBill_def)

section \<open>Evaluating the runtime on concrete dates\<close>

lemmas date_eval = Date_parse_def readDigits_def isDigit_def digitVal_def dateValue_def validDate_def
  DaysInMonth_def isLeapYear_def days_from_civil_def TimeClip_def msPerDay_def
  setHours0_def LocalTime_def UTC_def MakeDate_def Day_def roundDays_def daysUntil_def Let_def

lemma pad_unfold:
  "pad 2 n = [digitChar (n div 10), digitChar n]"
  "pad 3 n = [digitChar (n div 10 div 10), digitChar (n div 10), digitChar n]"
  "pad 4 n = [digitChar (n div 10 div 10 div 10), digitChar (n div 10 div 10),
              digitChar (n div 10), digitChar n]"
  "pad 6 n = [digitChar (n div 10 div 10 div 10 div 10 div 10),
              digitChar (n div 10 div 10 div 10 div 10), digitChar (n div 10 div 10 div 10),
              digitChar (n div 10 div 10), digitChar (n div 10), digitChar n]"
proof -
  have n: "(2::nat) = Suc (Suc 0)" "(3::nat) = Suc (Suc (Suc 0))"
    "(4::nat) = Suc (Suc (Suc (Suc 0)))" "(6::nat) = Suc (Suc (Suc (Suc (Suc (Suc 0)))))"
    by simp_all
  show "pad 2 n = [digitChar (n div 10), digitChar n]"
    unfolding n(1) by simp
  show "pad 3 n = [digitChar (n div 10 div 10), digitChar (n div 10), digitChar n]"
    unfolding n(2) by simp
  show "pad 4 n = [digitChar (n div 10 div 10 div 10), digitChar (n div 10 div 10),
              digitChar (n div 10), digitChar n]"
    unfolding n(3) by simp
  show "pad 6 n = [digitChar (n div 10 div 10 div 10 div 10 div 10),
              digitChar (n div 10 div 10 div 10 div 10), digitChar (n div 10 div 10 div 10),
              digitChar (n div 10 div 10), digitChar (n div 10), digitChar n]"
    unfolding n(4) by simp
qed

lemma digit_chars:
  "char_of (48::nat) = CHR ''0''" "char_of (49::nat) = CHR ''1''" "char_of (50::nat) = CHR ''2''"
  "char_of (51::nat) = CHR ''3''" "char_of (52::nat) = CHR ''4''" "char_of (53::nat) = CHR ''5''"
  "char_of (54::nat) = CHR ''6''" "char_of (55::nat) = CHR ''7''" "char_of (56::nat) = CHR ''8''"
  "char_of (57::nat) = CHR ''9''"
  by code_simp+

lemma showInt_digit:
  assumes "0 \<le> i" "i < 10"
  shows "showInt i = [digitChar (nat i)]"
proof -
  have "showNat (Suc (nat i)) (nat i) = [digitChar (nat i)]"
    using assms by simp
  then show ?thesis using assms by (simp add: showInt_def)
qed

lemma daysUntil_examples:
  "daysUntil 0 1717236000000 ''2024-06-08'' = Some 7"
  "daysUntil 0 1717236000000 ''2024-06-09'' = Some 8"
  "daysUntil 0 1718013600000 ''2024-06-07'' = Some (- 3)"
  "daysUntil 0 1718013600000 ''2024-06-06'' = Some (- 4)"
  "daysUntil 0 1718013600000 ''2024-06-10'' = Some 0"
  by (simp_all add: date_eval)

text \<open>The same on a host five hours west of UTC (offset -18000000), with no daylight saving.\<close>

lemma civil_from_days_west:
  "civil_from_days 19782 = (2024, 2, 29)" "civil_from_days 19812 = (2024, 3, 30)"
  "civil_from_days 20149 = (2025, 3, 2)" "civil_from_days 19875 = (2024, 6, 1)"
  "civil_from_days 19884 = (2024, 6, 10)"
  unfolding civil_from_days_def Let_def by simp_all

lemma daysUntil_west:
  "daysUntil (- 18000000) 1717236000000 ''2024-06-09'' = Some 7"
  "daysUntil (- 18000000) 1717236000000 ''2024-06-01'' = Some (- 1)"
  "daysUntil (- 18000000) 1718013600000 ''2024-06-07'' = Some (- 4)"
  "daysUntil (- 18000000) 1718013600000 ''2024-06-11'' = Some 0"
  by (simp_all add: date_eval)

lemma local_day_west:
  "civil_from_days (Day (LocalTime (- 18000000) 1717236000000)) = (2024, 6, 1)"
  "civil_from_days (Day (LocalTime (- 18000000) 1718013600000)) = (2024, 6, 10)"
  by (simp_all add: LocalTime_def Day_def msPerDay_def civil_from_days_west)

section \<open>Urgency of a bill\<close>

text \<open>
  The class \<^verbatim>\<open>render\<close> gives a bill, in terms of what \<open>daysUntil\<close> returns: \<open>paid\<close> for
  a paid bill whatever its date; otherwise \<open>overdue\<close> when \<open>daysUntil\<close> is negative, \<open>due\<close>
  (the specification's due-soon) when it is from 0 to 7, and \<open>ok\<close> beyond, also when
  \<open>daysUntil\<close> is NaN.
\<close>

lemma dueClass_classifies:
  "(paid b \<longrightarrow> dueClass tza now b = ''paid'')
   \<and> (\<not> paid b \<longrightarrow> (\<forall>d. daysUntil tza now (dueDate b) = Some d \<longrightarrow>
          dueClass tza now b = (if d < 0 then ''overdue'' else if d \<le> 7 then ''due'' else ''ok'')))
   \<and> (\<not> paid b \<and> daysUntil tza now (dueDate b) = None \<longrightarrow> dueClass tza now b = ''ok'')"
  by (simp add: dueClass_def cmp_def Let_def)

text \<open>At offset 0, seven days out is \<open>due\<close> and eight days out is \<open>ok\<close>.\<close>

lemma dueClass_at_UTC:
  "dueClass 0 1717236000000 (exampleBill\<lparr> paid := True \<rparr>) = ''paid''
   \<and> daysUntil 0 1717236000000 (dueDate exampleBill) = Some 7
   \<and> dueClass 0 1717236000000 exampleBill = ''due''
   \<and> daysUntil 0 1717236000000 (dueDate (exampleBill\<lparr> dueDate := ''2024-06-09'' \<rparr>)) = Some 8
   \<and> dueClass 0 1717236000000 (exampleBill\<lparr> dueDate := ''2024-06-09'' \<rparr>) = ''ok''"
  using dueClass_classifies [of "exampleBill\<lparr> paid := True \<rparr>" 0 1717236000000]
    dueClass_classifies [of exampleBill 0 1717236000000]
    dueClass_classifies [of "exampleBill\<lparr> dueDate := ''2024-06-09'' \<rparr>" 0 1717236000000]
  by (simp add: exampleBill_def daysUntil_examples)

text \<open>
  C4. An unpaid bill is to be overdue when its due date is before today, due-soon from today
  to seven days out, and ok from eight days out. The code counts the days with \<open>daysUntil\<close>,
  which reads the due date as midnight UTC and then takes the local midnight at or before it.
  On a host five hours west of UTC, on the local day 2024-06-01, \<open>daysUntil\<close> is 7 for a
  bill due 2024-06-09, eight days out, and -1 for a bill due that very day: the code gives
  the first the class \<open>due\<close> and the second the class \<open>overdue\<close>.
\<close>

theorem dueClass_west_of_UTC:
  "civil_from_days (Day (LocalTime (- 18000000) 1717236000000)) = (2024, 6, 1)
   \<and> daysUntil (- 18000000) 1717236000000 ''2024-06-09'' = Some 7
   \<and> dueClass (- 18000000) 1717236000000 (exampleBill\<lparr> dueDate := ''2024-06-09'' \<rparr>) = ''due''
   \<and> daysUntil (- 18000000) 1717236000000 ''2024-06-01'' = Some (- 1)
   \<and> dueClass (- 18000000) 1717236000000 (exampleBill\<lparr> dueDate := ''2024-06-01'' \<rparr>) = ''overdue''"
  by (simp add: local_day_west daysUntil_west dueClass_def cmp_def exampleBill_def)

section \<open>The filtered view\<close>






section \<open>The reminder\<close>

lemma dueNow_spec: "dueNow tza now bills = selectDue_spec tza now bills"
  unfolding dueNow_def selectDue_spec_def
  by (rule filter_cong) (auto simp: cmp_def Let_def split: option.splits)

lemma notifyLine_spec:
  assumes "daysUntil tza now (dueDate b) = Some d"
  shows "notifyLine fmtMoney tza now b = summaryLine_spec fmtMoney b d"
  using assms by (simp add: notifyLine_def summaryLine_spec_def dueText_def)

text \<open>
  The bills \<^verbatim>\<open>maybeNotifyDue\<close> selects, in terms of what \<open>daysUntil\<close> returns: the unpaid
  bills with \<open>daysUntil\<close> from -3 to 0, in the order of the collection; each line of the
  body is the name, the amount in parentheses and \<open>today\<close> or the number of days with
  \<open>d overdue\<close>; the body joins the lines of the first four selected bills; with nothing
  selected, or without the permission, no notification is sent.
\<close>

lemma maybeNotifyDue_selects:
  "dueNow tza now bills = selectDue_spec tza now bills
   \<and> (\<forall>b\<in>set (dueNow tza now bills). \<exists>d. daysUntil tza now (dueDate b) = Some d \<and> - 3 \<le> d \<and> d \<le> 0
          \<and> notifyLine fmtMoney tza now b = summaryLine_spec fmtMoney b d)
   \<and> map_option snd (maybeNotifyDue fmtMoney tza now True bills)
        = (if dueNow tza now bills = [] then None
           else Some (join [CHR 0x0A] (map (notifyLine fmtMoney tza now) (take 4 (dueNow tza now bills)))))
   \<and> maybeNotifyDue fmtMoney tza now False bills = None"
proof -
  have sel: "\<exists>d. daysUntil tza now (dueDate b) = Some d \<and> - 3 \<le> d \<and> d \<le> 0
          \<and> notifyLine fmtMoney tza now b = summaryLine_spec fmtMoney b d"
    if "b \<in> set (dueNow tza now bills)" for b
  proof -
    from that obtain d where d: "daysUntil tza now (dueDate b) = Some d" "- 3 \<le> d" "d \<le> 0"
      unfolding dueNow_spec selectDue_spec_def by (auto split: option.splits)
    then show ?thesis using notifyLine_spec [OF d(1)] by blast
  qed
  show ?thesis
    using dueNow_spec sel by (auto simp: maybeNotifyDue_def Let_def)
qed

text \<open>At offset 0, three days overdue is selected and four days overdue is not.\<close>

lemma maybeNotifyDue_at_UTC:
  "dueNow 0 1718013600000
      [exampleBill\<lparr> dueDate := ''2024-06-07'' \<rparr>, exampleBill\<lparr> dueDate := ''2024-06-06'' \<rparr>,
       exampleBill\<lparr> dueDate := ''2024-06-10'' \<rparr>]
     = [exampleBill\<lparr> dueDate := ''2024-06-07'' \<rparr>, exampleBill\<lparr> dueDate := ''2024-06-10'' \<rparr>]
   \<and> maybeNotifyDue (\<lambda>n. ''$100.00'') 0 1718013600000 True
      [exampleBill\<lparr> dueDate := ''2024-06-07'' \<rparr>, exampleBill\<lparr> dueDate := ''2024-06-06'' \<rparr>,
       exampleBill\<lparr> dueDate := ''2024-06-10'' \<rparr>]
     = Some (''2 Bills Due'', ''Rent ($100.00) 3d overdue'' @ [CHR 0x0A] @ ''Rent ($100.00) today'')
   \<and> maybeNotifyDue (\<lambda>n. ''$100.00'') 0 1718013600000 True
      [exampleBill\<lparr> dueDate := ''2024-06-06'' \<rparr>] = None"
proof -
  let ?bs = "[exampleBill\<lparr> dueDate := ''2024-06-07'' \<rparr>, exampleBill\<lparr> dueDate := ''2024-06-06'' \<rparr>,
       exampleBill\<lparr> dueDate := ''2024-06-10'' \<rparr>]"
  have s: "showInt 3 = ''3''" "showInt 2 = ''2''"
    by (simp_all add: showInt_digit digitChar_def digit_chars)
  have sel: "dueNow 0 1718013600000 ?bs
     = [exampleBill\<lparr> dueDate := ''2024-06-07'' \<rparr>, exampleBill\<lparr> dueDate := ''2024-06-10'' \<rparr>]"
    using maybeNotifyDue_selects [of 0 1718013600000 ?bs "\<lambda>n. ''$100.00''"]
    by (simp add: selectDue_spec_def exampleBill_def daysUntil_examples)
  show ?thesis
    using sel
    by (simp add: maybeNotifyDue_def Let_def notifyLine_def dueText_def daysUntil_examples s
        exampleBill_def dueNow_spec selectDue_spec_def)
qed

text \<open>
  C6. The reminder is to select the unpaid bills that are due today or up to three days
  overdue. On a host five hours west of UTC, on the local day 2024-06-10, the code leaves out
  the bill due 2024-06-07, three days overdue, and selects the bill due 2024-06-11, the next
  day, which the notification announces as due today.
\<close>

theorem dueNow_west_of_UTC:
  "civil_from_days (Day (LocalTime (- 18000000) 1718013600000)) = (2024, 6, 10)
   \<and> dueNow (- 18000000) 1718013600000
        [exampleBill\<lparr> dueDate := ''2024-06-07'' \<rparr>, exampleBill\<lparr> dueDate := ''2024-06-11'' \<rparr>]
      = [exampleBill\<lparr> dueDate := ''2024-06-11'' \<rparr>]
   \<and> maybeNotifyDue (\<lambda>n. ''$100.00'') (- 18000000) 1718013600000 True
        [exampleBill\<lparr> dueDate := ''2024-06-07'' \<rparr>, exampleBill\<lparr> dueDate := ''2024-06-11'' \<rparr>]
      = Some (''1 Bill Due'', ''Rent ($100.00) today'')"
proof -
  have s: "showInt 1 = ''1''"
    by (simp add: showInt_digit digitChar_def digit_chars)
  show ?thesis
    by (simp add: local_day_west daysUntil_west dueNow_def maybeNotifyDue_def notifyLine_def
        dueText_def cmp_def Let_def exampleBill_def s)
qed

section \<open>The calendar\<close>

text \<open>\<open>civil_from_days\<close> inverts \<open>days_from_civil\<close> and yields a date of the calendar.\<close>

lemma div_bounds:
  fixes a n :: int
  assumes "0 < n"
  shows "n * (a div n) \<le> a" "a < n * (a div n) + n"
proof -
  have "a = n * (a div n) + a mod n" by simp
  moreover have "0 \<le> a mod n" "a mod n < n" using assms by simp_all
  ultimately show "n * (a div n) \<le> a" "a < n * (a div n) + n" by linarith+
qed

lemma div_eqI:
  fixes a n q :: int
  assumes "n * q \<le> a" "a < n * q + n"
  shows "a div n = q"
proof -
  have n: "0 < n" using assms by linarith
  have "a = q * n + (a - n * q)" by (simp add: algebra_simps)
  moreover have "0 \<le> a - n * q" "a - n * q < n" using assms by simp_all
  ultimately show ?thesis
    by (metis add.commute div_pos_pos_trivial div_mult_self1 n less_irrefl add_cancel_right_right)
qed

lemma month_length_bound:
  fixes mp doy g :: int
  assumes "5 * doy + 2 < 153 * mp + 153" "153 * mp + 2 < 5 * g + 5" "0 \<le> mp" "mp \<le> 10"
  shows "doy - g + 1 \<le> (if mp = 1 \<or> mp = 3 \<or> mp = 6 \<or> mp = 8 then 30 else 31)"
proof -
  have "mp = 0 \<or> mp = 1 \<or> mp = 2 \<or> mp = 3 \<or> mp = 4 \<or> mp = 5 \<or> mp = 6
      \<or> mp = 7 \<or> mp = 8 \<or> mp = 9 \<or> mp = 10"
    using assms by presburger
  then show ?thesis
    using assms(1,2) by (elim disjE; simp)
qed

lemma leap_mod:
  fixes era c q :: int
  assumes "0 \<le> q" "q \<le> 23"
  shows "isLeapYear (400 * era + 100 * c + 4 * q + 4)"
proof -
  have a: "(400 * era + 100 * c + 4 * q + 4) mod 4 = 0" by presburger
  have "400 * era + 100 * c + 4 * q + 4 = (4 * q + 4) + (4 * era + c) * 100" by simp
  then have "(400 * era + 100 * c + 4 * q + 4) mod 100 = (4 * q + 4) mod 100"
    by (metis mod_mult_self1)
  also have "\<dots> = 4 * q + 4" using assms by simp
  finally have b: "(400 * era + 100 * c + 4 * q + 4) mod 100 \<noteq> 0" using assms by simp
  show ?thesis unfolding isLeapYear_def using a b by simp
qed

lemma civil_from_days_props:
  assumes "civil_from_days z = (y, m, d)"
  shows "days_from_civil y m d = z \<and> 1 \<le> m \<and> m \<le> 12 \<and> 1 \<le> d \<and> d \<le> DaysInMonth y m"
proof -
  define z1 where "z1 = z + 719468"
  define era where "era = z1 div 146097"
  define doe where "doe = z1 mod 146097"
  define e where "e = doe div 36524"
  define c where "c = min 3 e"
  define doc where "doc = doe - 36524 * c"
  define q where "q = doc div 1461"
  define s where "s = doc mod 1461"
  define f where "f = s div 365"
  define k where "k = min 3 f"
  define doy where "doy = s - 365 * k"
  define mp where "mp = (5 * doy + 2) div 153"
  define g where "g = (153 * mp + 2) div 5"
  define y1 where "y1 = 400 * era + 100 * c + 4 * q + k"
  have doe: "0 \<le> doe" "doe \<le> 146096" "z1 = 146097 * era + doe"
    unfolding doe_def era_def by simp_all
  have e: "36524 * e \<le> doe" "doe < 36524 * e + 36524"
    unfolding e_def by (rule div_bounds; simp)+
  have c: "0 \<le> c" "c \<le> 3" "doc \<ge> 0" "doc \<le> 36524" "c < 3 \<longrightarrow> doc \<le> 36523"
    unfolding c_def doc_def using doe e by (auto simp: min_def)
  have q: "1461 * q \<le> doc" "doc < 1461 * q + 1461"
    unfolding q_def by (rule div_bounds; simp)+
  have s: "doc = 1461 * q + s" "0 \<le> s" "s \<le> 1460"
    unfolding q_def s_def by simp_all
  have q2: "0 \<le> q" "q \<le> 24" "q = 24 \<and> s = 1460 \<longrightarrow> c = 3"
    using q s c by auto
  have f: "365 * f \<le> s" "s < 365 * f + 365"
    unfolding f_def by (rule div_bounds; simp)+
  have k: "0 \<le> k" "k \<le> 3" "0 \<le> doy" "doy \<le> 365" "doy = 365 \<longrightarrow> k = 3 \<and> s = 1460"
     "s = 365 * k + doy"
    unfolding k_def doy_def using f s by (auto simp: min_def)
  have mp: "153 * mp \<le> 5 * doy + 2" "5 * doy + 2 < 153 * mp + 153"
    unfolding mp_def by (rule div_bounds; simp)+
  have mp2: "0 \<le> mp" "mp \<le> 11"
    using mp k by auto
  have g: "5 * g \<le> 153 * mp + 2" "153 * mp + 2 < 5 * g + 5"
    unfolding g_def by (rule div_bounds; simp)+
  define mm where "mm = (if mp < 10 then mp + 3 else mp - 9)"
  have cfd: "civil_from_days z = (if mm \<le> 2 then y1 + 1 else y1, mm, doy - g + 1)"
    unfolding civil_from_days_def Let_def mm_def g_def mp_def doy_def k_def f_def s_def q_def
      doc_def c_def e_def doe_def era_def z1_def y1_def
    by (rule refl)
  have res: "y = (if mm \<le> 2 then y1 + 1 else y1)" "m = mm" "d = doy - g + 1"
    using assms cfd by auto
  have m: "1 \<le> m" "m \<le> 12" "(if m \<le> 2 then m + 9 else m - 3) = mp"
       "(if m \<le> 2 then y - 1 else y) = y1"
    using res mp2 by (auto simp: mm_def)
  have d: "1 \<le> d" "d \<le> 31" using res g mp by auto
  have y4: "y1 div 4 = 100 * era + 25 * c + q"
    by (rule div_eqI) (use k in \<open>auto simp: y1_def\<close>)
  have y100: "y1 div 100 = 4 * era + c"
    by (rule div_eqI) (use k q2 in \<open>auto simp: y1_def\<close>)
  have y400: "y1 div 400 = era"
    by (rule div_eqI) (use k q2 c in \<open>auto simp: y1_def\<close>)
  have dfc: "days_from_civil y m d = z"
    unfolding days_from_civil_def Let_def m y4 y100 y400 g_def[symmetric]
    using res(3) k(6) s(1) doe(3) by (simp add: y1_def doc_def z1_def)
  have leap: "isLeapYear (y1 + 1)" if "doy = 365"
  proof -
    have ks: "k = 3" "s = 1460" using k(5) that by simp_all
    consider "q = 24" | "q \<le> 23" using q2 by linarith
    then show ?thesis
    proof cases
      case 1
      then have "c = 3" using q2 ks by simp
      then have "y1 + 1 = 400 * (era + 1)" using 1 ks by (simp add: y1_def)
      then show ?thesis unfolding isLeapYear_def by simp
    next
      case 2
      have "y1 + 1 = 400 * era + 100 * c + 4 * q + 4" using ks by (simp add: y1_def)
      moreover have "isLeapYear (400 * era + 100 * c + 4 * q + 4)"
        using leap_mod [of q era c] q2 2 by simp
      ultimately show ?thesis by (simp only:)
    qed
  qed
  consider "mp \<le> 10" | "mp = 11" using mp2 by linarith
  then have dim: "d \<le> DaysInMonth y m"
  proof cases
    case 1
    have "doy - g + 1 \<le> (if mp = 1 \<or> mp = 3 \<or> mp = 6 \<or> mp = 8 then 30 else 31)"
      using month_length_bound [OF mp(2) g(2) mp2(1) 1] .
    moreover have "DaysInMonth y m = (if mp = 1 \<or> mp = 3 \<or> mp = 6 \<or> mp = 8 then 30 else 31)"
      using 1 mp2 res(2) by (auto simp: DaysInMonth_def mm_def)
    ultimately show ?thesis using res(3) by simp
  next
    case 2
    then have m2: "m = 2" "y = y1 + 1" "g = 337" using res g by (auto simp: mm_def)
    consider "doy = 365" | "doy \<le> 364" using k by linarith
    then show ?thesis
    proof cases
      case 1
      then show ?thesis using leap m2 res by (simp add: DaysInMonth_def)
    next
      case 2
      then show ?thesis using m2 res by (simp add: DaysInMonth_def)
    qed
  qed
  show ?thesis using dfc m d dim by simp
qed

lemma days_from_civil_alt:
  "days_from_civil y m d =
     yearDays (if m \<le> 2 then y - 1 else y)
       + (153 * (if m \<le> 2 then m + 9 else m - 3) + 2) div 5 + d - 1 - 719468"
  by (simp add: days_from_civil_def yearDays_def Let_def)

lemma yearDays_mono:
  assumes "a \<le> b"
  shows "yearDays a \<le> yearDays b"
proof -
  have 1: "a div 4 \<le> b div 4" "a div 400 \<le> b div 400"
    using assms by (simp_all add: zdiv_mono1)
  have 2: "100 * (b div 100) \<le> b" "a < 100 * (a div 100) + 100"
    using div_bounds [of 100 b] div_bounds [of 100 a] by simp_all
  show ?thesis unfolding yearDays_def using assms 1 2 by linarith
qed

lemma div_succ:
  fixes y n :: int
  assumes "0 < n"
  shows "(y + 1) div n = y div n + (if (y + 1) mod n = 0 then 1 else 0)"
proof -
  define q where "q = (y + 1) div n"
  define r where "r = (y + 1) mod n"
  have r: "0 \<le> r" "r < n" unfolding r_def using assms by simp_all
  have eq: "y + 1 = n * q + r" unfolding q_def r_def by simp
  show ?thesis
  proof (cases rule: case_split [of "r = 0"])
    case True
    have "y div n = q - 1"
      by (rule div_eqI) (use eq True assms in \<open>simp_all add: algebra_simps\<close>)
    then show ?thesis using True by (simp add: q_def r_def)
  next
    case False
    have "y div n = q"
      by (rule div_eqI) (use eq False r in \<open>simp_all add: algebra_simps\<close>)
    then show ?thesis using False by (simp add: q_def r_def)
  qed
qed

lemma mod_0_trans:
  fixes x a b :: int
  assumes "x mod (a * b) = 0"
  shows "x mod a = 0"
  using assms by (metis dvd_mult_left mod_0_imp_dvd dvd_imp_mod_0)

lemma yearDays_step: "365 \<le> yearDays (y + 1) - yearDays y \<and> yearDays (y + 1) - yearDays y \<le> 366"
proof -
  have a: "(y + 1) div 4 = y div 4 + (if (y + 1) mod 4 = 0 then 1 else 0)"
    by (rule div_succ) simp
  have b: "(y + 1) div 100 = y div 100 + (if (y + 1) mod 100 = 0 then 1 else 0)"
    by (rule div_succ) simp
  have c: "(y + 1) div 400 = y div 400 + (if (y + 1) mod 400 = 0 then 1 else 0)"
    by (rule div_succ) simp
  have ba: "(y + 1) mod 100 = 0 \<Longrightarrow> (y + 1) mod 4 = 0"
    using mod_0_trans [of "y + 1" 4 25] by simp
  have cb: "(y + 1) mod 400 = 0 \<Longrightarrow> (y + 1) mod 100 = 0"
    using mod_0_trans [of "y + 1" 100 4] by simp
  show ?thesis unfolding yearDays_def a b c using ba cb by auto
qed

lemma month_offset_bounds:
  fixes mp :: int
  assumes "0 \<le> mp" "mp \<le> 11"
  shows "0 \<le> (153 * mp + 2) div 5" "(153 * mp + 2) div 5 \<le> 337"
    "mp \<le> 9 \<Longrightarrow> (153 * mp + 2) div 5 \<le> 275"
  using div_bounds [of 5 "153 * mp + 2"] assms by auto

lemma month_offset_step:
  fixes mp :: int
  shows "30 \<le> (153 * (mp + 1) + 2) div 5 - (153 * mp + 2) div 5"
    "(153 * (mp + 1) + 2) div 5 - (153 * mp + 2) div 5 \<le> 31"
  using div_bounds [of 5 "153 * mp + 2"] div_bounds [of 5 "153 * (mp + 1) + 2"] by auto

lemma days_from_civil_day: "days_from_civil y m d = days_from_civil y m 1 + d - 1"
  by (simp add: days_from_civil_def Let_def)

lemma days_from_civil_jan: "days_from_civil y 1 1 = yearDays (y - 1) - 719162"
  by (simp add: days_from_civil_alt)

lemma days_from_civil_in_year:
  assumes "1 \<le> m" "m \<le> 12" "1 \<le> d" "d \<le> 31"
  shows "days_from_civil y 1 1 \<le> days_from_civil y m d"
    and "days_from_civil y m d < days_from_civil (y + 1) 1 1"
proof -
  have st: "365 \<le> yearDays y - yearDays (y - 1)"
    using yearDays_step [of "y - 1"] by simp
  have "days_from_civil y 1 1 \<le> days_from_civil y m d \<and> days_from_civil y m d < days_from_civil (y + 1) 1 1"
  proof (cases rule: case_split [of "m \<le> 2"])
    case True
    then have "m = 1 \<or> m = 2" using assms by linarith
    then show ?thesis
      using assms st by (auto simp: days_from_civil_alt)
  next
    case False
    have b: "0 \<le> (153 * (m - 3) + 2) div 5" "(153 * (m - 3) + 2) div 5 \<le> 275"
      using month_offset_bounds [of "m - 3"] False assms by auto
    show ?thesis
      using False assms st b by (simp add: days_from_civil_alt)
  qed
  then show "days_from_civil y 1 1 \<le> days_from_civil y m d"
    and "days_from_civil y m d < days_from_civil (y + 1) 1 1" by simp_all
qed

lemma days_from_civil_year_mono:
  assumes "y < y'" "1 \<le> m" "m \<le> 12" "1 \<le> d" "d \<le> 31" "1 \<le> m'" "m' \<le> 12" "1 \<le> d'" "d' \<le> 31"
  shows "days_from_civil y m d < days_from_civil y' m' d'"
proof -
  have "days_from_civil y m d < days_from_civil (y + 1) 1 1"
    using days_from_civil_in_year(2) assms by simp
  also have "\<dots> \<le> days_from_civil y' 1 1"
    using yearDays_mono [of y "y' - 1"] assms(1) by (simp add: days_from_civil_jan)
  also have "\<dots> \<le> days_from_civil y' m' d'"
    using days_from_civil_in_year(1) assms by simp
  finally show ?thesis .
qed

lemma MakeDay_next_month:
  assumes "1 \<le> m" "m \<le> 12"
  shows "28 \<le> MakeDay y m d - days_from_civil y m d"
    and "MakeDay y m d - days_from_civil y m d \<le> 31"
proof -
  have st: "365 \<le> yearDays y - yearDays (y - 1)" "yearDays y - yearDays (y - 1) \<le> 366"
    using yearDays_step [of "y - 1"] by simp_all
  have "28 \<le> MakeDay y m d - days_from_civil y m d \<and> MakeDay y m d - days_from_civil y m d \<le> 31"
  proof -
    consider "m = 12" | "m = 1" | "m = 2" | "3 \<le> m \<and> m \<le> 11" using assms by linarith
    then show ?thesis
    proof cases
      case 1
      then show ?thesis by (simp add: MakeDay_def days_from_civil_alt)
    next
      case 2
      then show ?thesis by (simp add: MakeDay_def days_from_civil_alt)
    next
      case 3
      then show ?thesis using st by (simp add: MakeDay_def days_from_civil_alt)
    next
      case 4
      then have dm: "m div 12 = 0" "m mod 12 = m" by simp_all
      have "(153 * (m + 1 - 3) + 2) div 5 = (153 * ((m - 3) + 1) + 2) div 5" by simp
      then show ?thesis
        using 4 month_offset_step [of "m - 3"]
        by (simp add: MakeDay_def days_from_civil_alt dm)
    qed
  qed
  then show "28 \<le> MakeDay y m d - days_from_civil y m d"
    and "MakeDay y m d - days_from_civil y m d \<le> 31" by simp_all
qed

lemma MakeDay_next_year:
  assumes "1 \<le> m" "m \<le> 12"
  shows "365 \<le> MakeDay (y + 1) (m - 1) d - days_from_civil y m d"
    and "MakeDay (y + 1) (m - 1) d - days_from_civil y m d \<le> 366"
proof -
  have dm: "(m - 1) div 12 = 0" "(m - 1) mod 12 = m - 1" using assms by simp_all
  have "365 \<le> MakeDay (y + 1) (m - 1) d - days_from_civil y m d
        \<and> MakeDay (y + 1) (m - 1) d - days_from_civil y m d \<le> 366"
    using yearDays_step [of y] yearDays_step [of "y - 1"]
    by (simp add: MakeDay_def days_from_civil_alt dm)
  then show "365 \<le> MakeDay (y + 1) (m - 1) d - days_from_civil y m d"
    and "MakeDay (y + 1) (m - 1) d - days_from_civil y m d \<le> 366" by simp_all
qed

section \<open>Reading and writing dates\<close>

lemma of_char_digitChar: "(of_char (digitChar n) :: nat) = 48 + n mod 10"
proof -
  have "(48 + n mod 10) mod 256 = 48 + n mod 10"
    by (rule mod_less) (use mod_less_divisor [of 10 n] in linarith)
  then show ?thesis by (simp add: digitChar_def)
qed

lemma isDigit_digitChar: "isDigit (digitChar n)"
  by (simp add: isDigit_def of_char_digitChar)

lemma digitVal_digitChar: "digitVal (digitChar n) = n mod 10"
  by (simp add: digitVal_def of_char_digitChar)

lemma digit_not_sign: "isDigit c \<Longrightarrow> c \<noteq> CHR ''+'' \<and> c \<noteq> CHR ''-''"
  by (auto simp: isDigit_def)

lemma digitVal_le: "isDigit c \<Longrightarrow> digitVal c \<le> 9"
  by (auto simp: isDigit_def digitVal_def)

lemma readDigits_2: "isDigit a \<Longrightarrow> isDigit b \<Longrightarrow> readDigits [a, b] = Some (10 * digitVal a + digitVal b)"
  by (simp add: readDigits_def)

lemma readDigits_4:
  "isDigit a \<Longrightarrow> isDigit b \<Longrightarrow> isDigit c \<Longrightarrow> isDigit d \<Longrightarrow>
     readDigits [a, b, c, d] = Some (1000 * digitVal a + 100 * digitVal b + 10 * digitVal c + digitVal d)"
  by (simp add: readDigits_def)

lemma readDigits_6:
  "isDigit a \<Longrightarrow> isDigit b \<Longrightarrow> isDigit c \<Longrightarrow> isDigit d \<Longrightarrow> isDigit e \<Longrightarrow> isDigit f \<Longrightarrow>
     readDigits [a, b, c, d, e, f]
       = Some (100000 * digitVal a + 10000 * digitVal b + 1000 * digitVal c + 100 * digitVal d
               + 10 * digitVal e + digitVal f)"
  by (simp add: readDigits_def)

lemma decimal_2:
  fixes n :: nat
  assumes "n < 100"
  shows "10 * (n div 10 mod 10) + n mod 10 = n"
proof -
  have "n div 10 < 10" using assms by simp
  then have "n div 10 mod 10 = n div 10" by simp
  then show ?thesis by simp
qed

lemma decimal_4:
  fixes n :: nat
  assumes "n < 10000"
  shows "1000 * (n div 10 div 10 div 10 mod 10) + 100 * (n div 10 div 10 mod 10)
           + 10 * (n div 10 mod 10) + n mod 10 = n"
proof -
  have "n div 10 div 10 < 100" using assms by simp
  from decimal_2 [OF this] have 1: "10 * (n div 10 div 10 div 10 mod 10) + n div 10 div 10 mod 10 = n div 10 div 10" .
  have 2: "10 * (n div 10 div 10) + n div 10 mod 10 = n div 10" by simp
  have 3: "10 * (n div 10) + n mod 10 = n" by simp
  show ?thesis using 1 2 3 by linarith
qed

lemma decimal_6:
  fixes n :: nat
  assumes "n < 1000000"
  shows "100000 * (n div 10 div 10 div 10 div 10 div 10 mod 10)
           + 10000 * (n div 10 div 10 div 10 div 10 mod 10)
           + 1000 * (n div 10 div 10 div 10 mod 10) + 100 * (n div 10 div 10 mod 10)
           + 10 * (n div 10 mod 10) + n mod 10 = n"
proof -
  have "n div 10 div 10 < 10000" using assms by simp
  from decimal_4 [OF this] have 1:
    "1000 * (n div 10 div 10 div 10 div 10 div 10 mod 10) + 100 * (n div 10 div 10 div 10 div 10 mod 10)
       + 10 * (n div 10 div 10 div 10 mod 10) + n div 10 div 10 mod 10 = n div 10 div 10" .
  have 2: "10 * (n div 10 div 10) + n div 10 mod 10 = n div 10" by simp
  have 3: "10 * (n div 10) + n mod 10 = n" by simp
  show ?thesis using 1 2 3 by linarith
qed

lemma Date_parse_ymd:
  assumes "y < 10000" "m < 100" "d < 100"
  shows "Date_parse (pad 4 y @ ''-'' @ pad 2 m @ ''-'' @ pad 2 d) = dateValue (int y) m d"
  using decimal_4 [OF assms(1)] decimal_2 [OF assms(2)] decimal_2 [OF assms(3)]
    digit_not_sign [OF isDigit_digitChar]
  by (simp add: pad_unfold Date_parse_def readDigits_4 readDigits_2 isDigit_digitChar
      digitVal_digitChar)

lemma Date_parse_expanded:
  assumes "y < 1000000" "m < 100"
  shows "Date_parse (CHR ''+'' # pad 6 y @ ''-'' @ pad 2 m) = dateValue (int y) m 1"
  using decimal_6 [OF assms(1)] decimal_2 [OF assms(2)]
  by (simp add: pad_unfold Date_parse_def readDigits_6 readDigits_2 isDigit_digitChar
      digitVal_digitChar)

lemma Date_parse_regex:
  assumes "dateRegex s"
  obtains y m d where "dateFields s = Some (y, m, d)" "y \<le> 9999"
    "Date_parse s = dateValue (int y) m d"
proof -
  from assms obtain y1 y2 y3 y4 h1 m1 m2 h2 d1 d2 where
    s: "s = [y1, y2, y3, y4, h1, m1, m2, h2, d1, d2]"
    and dg: "isDigit y1" "isDigit y2" "isDigit y3" "isDigit y4" "isDigit m1" "isDigit m2"
      "isDigit d1" "isDigit d2"
    and h: "h1 = CHR ''-''" "h2 = CHR ''-''"
    by (auto elim!: dateRegex.elims)
  define y where "y = 1000 * digitVal y1 + 100 * digitVal y2 + 10 * digitVal y3 + digitVal y4"
  have y: "y \<le> 9999"
    unfolding y_def using dg(1-4) [THEN digitVal_le] by linarith
  have "Date_parse s = dateValue (int y) (10 * digitVal m1 + digitVal m2) (10 * digitVal d1 + digitVal d2)"
    using dg h digit_not_sign [OF dg(1)]
    by (simp add: s Date_parse_def readDigits_4 readDigits_2 y_def)
  moreover have "dateFields s = Some (y, 10 * digitVal m1 + digitVal m2, 10 * digitVal d1 + digitVal d2)"
    by (simp add: s y_def)
  ultimately show ?thesis using that y by blast
qed

lemma DaysInMonth_bounds: "28 \<le> DaysInMonth y m" "DaysInMonth y m \<le> 31"
  by (simp_all add: DaysInMonth_def)

lemma year_start_values:
  "days_from_civil 0 1 1 = - 719528" "days_from_civil 10000 1 1 = 2932897"
  "days_from_civil 10003 1 1 = 2933993"
  by (simp_all add: days_from_civil_def)

lemma days_from_civil_range:
  assumes "0 \<le> y" "y \<le> 10002" "1 \<le> m" "m \<le> 12" "1 \<le> d" "d \<le> 31"
  shows "- 719528 \<le> days_from_civil y m d" "days_from_civil y m d < 2933993"
proof -
  have "days_from_civil 0 1 1 \<le> days_from_civil y 1 1"
    using yearDays_mono [of "- 1" "y - 1"] assms(1) by (simp add: days_from_civil_jan)
  then show "- 719528 \<le> days_from_civil y m d"
    using days_from_civil_in_year(1) [OF assms(3-6), of y] by (simp add: year_start_values)
  have "days_from_civil (y + 1) 1 1 \<le> days_from_civil 10003 1 1"
    using yearDays_mono [of y 10002] assms(2) by (simp add: days_from_civil_jan)
  then show "days_from_civil y m d < 2933993"
    using days_from_civil_in_year(2) [OF assms(3-6), of y] by (simp add: year_start_values)
qed

lemma dateValue_valid:
  assumes "0 \<le> y" "y \<le> 10002" "validDate y (int m) (int d)"
  shows "dateValue y m d = Some (days_from_civil y (int m) (int d) * msPerDay)"
proof -
  have v: "1 \<le> int m" "int m \<le> 12" "1 \<le> int d" "int d \<le> 31"
    using assms(3) DaysInMonth_bounds(2) [of y "int m"] unfolding validDate_def by linarith+
  from days_from_civil_range [OF assms(1,2) v]
  show ?thesis using assms(3) by (simp add: dateValue_def TimeClip_def msPerDay_def)
qed

lemma dateValue_Some:
  assumes "dateValue y m d = Some t"
  shows "validDate y (int m) (int d)" "t = days_from_civil y (int m) (int d) * msPerDay"
  using assms by (auto simp: dateValue_def TimeClip_def split: if_splits)

lemma take10_toISOString:
  assumes "civil_from_days (Day t) = (y, m, d)"
  shows "0 \<le> y \<Longrightarrow> y \<le> 9999 \<Longrightarrow>
           take 10 (toISOString t) = pad 4 (nat y) @ ''-'' @ pad 2 (nat m) @ ''-'' @ pad 2 (nat d)"
    and "10000 \<le> y \<Longrightarrow> take 10 (toISOString t) = CHR ''+'' # pad 6 (nat y) @ ''-'' @ pad 2 (nat m)"
  by (simp_all add: toISOString_def assms yearString_def pad_unfold Let_def)

section \<open>Advancing a due date\<close>

lemma advanced_date_parses:
  assumes D0: "- 719528 \<le> D0" "D0 < 2932897" and n: "1 \<le> n" "n \<le> 366"
  shows "\<exists>t'. Date_parse (take 10 (toISOString ((D0 + n) * msPerDay))) = Some t'
           \<and> D0 * msPerDay < t'"
proof -
  define u where "u = (D0 + n) * msPerDay"
  have day: "Day u = D0 + n"
    by (simp add: u_def Day_def msPerDay_def)
  obtain Y M D where cfd: "civil_from_days (Day u) = (Y, M, D)"
    by (cases rule: prod_cases3)
  from civil_from_days_props [OF cfd] have
    p: "days_from_civil Y M D = D0 + n" "1 \<le> M" "M \<le> 12" "1 \<le> D" "D \<le> DaysInMonth Y M"
    using day by simp_all
  have D31: "D \<le> 31" using p(5) DaysInMonth_bounds(2) [of Y M] by linarith
  have valid: "validDate Y M D" using p by (simp add: validDate_def)
  have Y0: "0 \<le> Y"
  proof (rule ccontr)
    assume "\<not> 0 \<le> Y"
    then have "Y + 1 \<le> 0" by simp
    then have "days_from_civil (Y + 1) 1 1 \<le> days_from_civil 0 1 1"
      using yearDays_mono [of Y "- 1"] by (simp add: days_from_civil_jan)
    moreover have "days_from_civil Y M D < days_from_civil (Y + 1) 1 1"
      using days_from_civil_in_year(2) [OF p(2,3,4) D31] .
    ultimately show False using p(1) D0 n by (simp add: year_start_values)
  qed
  have Y1: "Y \<le> 10001"
  proof (rule ccontr)
    assume "\<not> Y \<le> 10001"
    then have "10002 \<le> Y" by simp
    then have "days_from_civil 10002 1 1 \<le> days_from_civil Y 1 1"
      using yearDays_mono [of 10001 "Y - 1"] by (simp add: days_from_civil_jan)
    moreover have "days_from_civil Y 1 1 \<le> days_from_civil Y M D"
      using days_from_civil_in_year(1) [OF p(2,3,4) D31] .
    moreover have "days_from_civil 10002 1 1 = 2933628"
      by (simp add: days_from_civil_def)
    ultimately show False using p(1) D0 n by simp
  qed
  have nat_eq: "int (nat Y) = Y" "int (nat M) = M" "int (nat D) = D"
    using Y0 p by simp_all
  show ?thesis
  proof (cases rule: case_split [of "Y \<le> 9999"])
    case True
    have "take 10 (toISOString u) = pad 4 (nat Y) @ ''-'' @ pad 2 (nat M) @ ''-'' @ pad 2 (nat D)"
      using take10_toISOString(1) [OF cfd Y0 True] .
    moreover have "Date_parse (pad 4 (nat Y) @ ''-'' @ pad 2 (nat M) @ ''-'' @ pad 2 (nat D))
        = dateValue (int (nat Y)) (nat M) (nat D)"
      by (rule Date_parse_ymd) (use True Y0 p D31 in simp_all)
    moreover have "dateValue Y (nat M) (nat D) = Some (days_from_civil Y M D * msPerDay)"
      using dateValue_valid [of Y "nat M" "nat D"] Y0 Y1 valid nat_eq by simp
    ultimately have "Date_parse (take 10 (toISOString u)) = Some ((D0 + n) * msPerDay)"
      using p(1) nat_eq by simp
    moreover have "D0 * msPerDay < (D0 + n) * msPerDay"
      using n by (simp add: msPerDay_def)
    ultimately show ?thesis unfolding u_def by blast
  next
    case False
    then have big: "10000 \<le> Y" by simp
    have "take 10 (toISOString u) = CHR ''+'' # pad 6 (nat Y) @ ''-'' @ pad 2 (nat M)"
      using take10_toISOString(2) [OF cfd big] .
    moreover have "Date_parse (CHR ''+'' # pad 6 (nat Y) @ ''-'' @ pad 2 (nat M))
        = dateValue (int (nat Y)) (nat M) 1"
      by (rule Date_parse_expanded) (use Y1 Y0 p in simp_all)
    moreover have "validDate Y M 1"
      using p DaysInMonth_bounds(1) [of Y M] by (simp add: validDate_def)
    then have "dateValue Y (nat M) 1 = Some (days_from_civil Y M 1 * msPerDay)"
      using dateValue_valid [of Y "nat M" 1] Y0 Y1 nat_eq by simp
    ultimately have "Date_parse (take 10 (toISOString u)) = Some (days_from_civil Y M 1 * msPerDay)"
      using nat_eq by simp
    moreover have "D0 < days_from_civil Y M 1"
    proof -
      have "days_from_civil 10000 1 1 \<le> days_from_civil Y 1 1"
        using yearDays_mono [of 9999 "Y - 1"] big by (simp add: days_from_civil_jan)
      moreover have "days_from_civil Y 1 1 \<le> days_from_civil Y M 1"
        using days_from_civil_in_year(1) [OF p(2,3), of 1 Y] by simp
      ultimately show ?thesis using D0 by (simp add: year_start_values)
    qed
    then have "D0 * msPerDay < days_from_civil Y M 1 * msPerDay"
      by (simp add: msPerDay_def)
    ultimately show ?thesis unfolding u_def by blast
  qed
qed

lemma local_fields:
  assumes "civil_from_days (Day (LocalTime tza t)) = (Y, M, D)"
  shows "YearFromTime (LocalTime tza t) = Y" "MonthFromTime (LocalTime tza t) = M - 1"
    "DateFromTime (LocalTime tza t) = D"
  using assms by (simp_all add: YearFromTime_def MonthFromTime_def DateFromTime_def)

lemma shift_days:
  "UTC tza (MakeDate (Day (LocalTime tza t) + n) (TimeWithinDay (LocalTime tza t))) = t + n * msPerDay"
proof -
  have "(t + tza) div msPerDay * msPerDay + (t + tza) mod msPerDay = t + tza" by simp
  then show ?thesis
    by (simp add: UTC_def MakeDate_def LocalTime_def Day_def TimeWithinDay_def algebra_simps)
qed

lemma nextRecurringDate_advances:
  assumes rec: "rec \<noteq> Rec_none" and t: "Date_parse s = Some (D0 * msPerDay)"
    and D0: "- 719528 \<le> D0" "D0 < 2932897"
  shows "\<exists>n. 28 \<le> n \<and> n \<le> 366
           \<and> nextRecurringDate tza s rec = Inr (take 10 (toISOString ((D0 + n) * msPerDay)))"
proof -
  define t where "t = D0 * msPerDay"
  obtain Y M D where cfd: "civil_from_days (Day (LocalTime tza t)) = (Y, M, D)"
    by (cases rule: prod_cases3)
  from civil_from_days_props [OF cfd] have
    p: "days_from_civil Y M D = Day (LocalTime tza t)" "1 \<le> M" "M \<le> 12"
    by simp_all
  note lf = local_fields [OF cfd]
  have clip: "TimeClip (t + n * msPerDay) = Some (t + n * msPerDay)" if "28 \<le> n" "n \<le> 366" for n
    using that D0 by (simp add: TimeClip_def t_def msPerDay_def)
  show ?thesis
  proof (cases rule: case_split [of "rec = Rec_monthly"])
    case True
    define n where "n = MakeDay Y M D - days_from_civil Y M D"
    have n: "28 \<le> n" "n \<le> 366"
      using MakeDay_next_month [OF p(2,3), of Y D] unfolding n_def by simp_all
    have md: "MakeDay Y M D = Day (LocalTime tza t) + n"
      unfolding n_def p(1) [symmetric] by simp
    have "setMonth tza (Some t) (map_option (\<lambda>m. m + 1) (getMonth tza (Some t)))
        = Some (t + n * msPerDay)"
      by (simp add: setMonth_def getMonth_def Let_def lf md shift_days clip [OF n])
    then have "nextRecurringDate tza s rec = Inr (take 10 (toISOString (t + n * msPerDay)))"
      using True assms(2) by (simp add: nextRecurringDate_def Let_def t_def)
    then show ?thesis using n by (auto simp: t_def algebra_simps)
  next
    case False
    define n where "n = MakeDay (Y + 1) (M - 1) D - days_from_civil Y M D"
    have n: "28 \<le> n" "n \<le> 366"
      using MakeDay_next_year [OF p(2,3), of Y D] unfolding n_def by simp_all
    have md: "MakeDay (Y + 1) (M - 1) D = Day (LocalTime tza t) + n"
      unfolding n_def p(1) [symmetric] by simp
    have "setFullYear tza (Some t) (map_option (\<lambda>y. y + 1) (getFullYear tza (Some t)))
        = Some (t + n * msPerDay)"
      by (simp add: setFullYear_def getFullYear_def Let_def lf md shift_days clip [OF n])
    then have "nextRecurringDate tza s rec = Inr (take 10 (toISOString (t + n * msPerDay)))"
      using False rec assms(2) by (simp add: nextRecurringDate_def Let_def t_def)
    then show ?thesis using n by (auto simp: t_def algebra_simps)
  qed
qed

section \<open>Days until a due date\<close>







lemma dateValue_range:
  assumes "y \<le> 9999" "validDate (int y) (int m) (int d)"
  shows "\<exists>D0. dateValue (int y) m d = Some (D0 * msPerDay) \<and> D0 = days_from_civil (int y) (int m) (int d)
           \<and> - 719528 \<le> D0 \<and> D0 < 2932897"
proof -
  have v: "1 \<le> int m" "int m \<le> 12" "1 \<le> int d" "int d \<le> 31"
    using assms(2) DaysInMonth_bounds(2) [of "int y" "int m"] unfolding validDate_def by linarith+
  have "days_from_civil (int y + 1) 1 1 \<le> days_from_civil 10000 1 1"
    using yearDays_mono [of "int y" 9999] assms(1) by (simp add: days_from_civil_jan)
  then have up: "days_from_civil (int y) (int m) (int d) < 2932897"
    using days_from_civil_in_year(2) [OF v, of "int y"] by (simp add: year_start_values)
  have lo: "- 719528 \<le> days_from_civil (int y) (int m) (int d)"
    using days_from_civil_range(1) [OF _ _ v, of "int y"] assms(1) by simp
  have "dateValue (int y) m d = Some (days_from_civil (int y) (int m) (int d) * msPerDay)"
    using dateValue_valid [of "int y" m d] assms by simp
  then show ?thesis using up lo by simp
qed

lemma digitVals:
  "digitVal CHR ''0'' = 0" "digitVal CHR ''1'' = 1" "digitVal CHR ''2'' = 2" "digitVal CHR ''3'' = 3"
  "digitVal CHR ''4'' = 4" "digitVal CHR ''5'' = 5" "digitVal CHR ''6'' = 6" "digitVal CHR ''7'' = 7"
  "digitVal CHR ''8'' = 8" "digitVal CHR ''9'' = 9"
  by (simp_all add: digitVal_def)




section \<open>Paying a bill\<close>

lemma togglePaid_found:
  assumes k: "k < length bills" "bill_id (bills ! k) = i" "\<forall>j<k. bill_id (bills ! j) \<noteq> i"
    and i: "i \<noteq> []"
  shows "togglePaid tza now i bills =
     (let b1 = (bills ! k)\<lparr> paid := \<not> paid (bills ! k), updatedAt := now \<rparr>
      in if paid b1 \<and> recurrence b1 \<noteq> Rec_none then
           (case nextRecurringDate tza (dueDate b1) (recurrence b1) of
              Inl e \<Rightarrow> (ShowedError ''Failed to toggle-paid bill'', bills[k := b1])
            | Inr s \<Rightarrow> (Saved, bills[k := b1\<lparr> dueDate := s, paid := False \<rparr>]))
         else (Saved, bills[k := b1]))"
proof -
  have idx: "findIndex (\<lambda>b. bill_id b = i) bills = int k"
    using k by (intro findIndex_at) auto
  show ?thesis
    using i by (simp add: togglePaid_def billListClick_def idx Let_def split: sum.split)
qed

lemma nextRecurringDate_later:
  assumes rec: "rec \<noteq> Rec_none" and df: "dateFields s = Some (y, m, d)"
    and re: "dateRegex s" and v: "validDate (int y) (int m) (int d)"
  shows "\<exists>s' t t'. nextRecurringDate tza s rec = Inr s' \<and> Date_parse s = Some t
           \<and> Date_parse s' = Some t' \<and> t < t'"
proof -
  from Date_parse_regex [OF re] obtain y' m' d' where
    f: "dateFields s = Some (y', m', d')" "y' \<le> 9999" "Date_parse s = dateValue (int y') m' d'"
    by blast
  then have eq: "y' = y" "m' = m" "d' = d" using df by simp_all
  from dateValue_range [OF f(2) v [folded eq]] obtain D0 where
    D0: "dateValue (int y') m' d' = Some (D0 * msPerDay)" "- 719528 \<le> D0" "D0 < 2932897"
    by blast
  have p: "Date_parse s = Some (D0 * msPerDay)" using f(3) D0(1) by simp
  from nextRecurringDate_advances [OF rec p D0(2,3)] obtain n where
    n: "28 \<le> n" "n \<le> 366"
       "nextRecurringDate tza s rec = Inr (take 10 (toISOString ((D0 + n) * msPerDay)))"
    by blast
  from advanced_date_parses [OF D0(2,3), of n] n(1,2) obtain t' where
    "Date_parse (take 10 (toISOString ((D0 + n) * msPerDay))) = Some t'" "D0 * msPerDay < t'"
    by auto
  then show ?thesis using n(3) p by blast
qed

lemma Date_parse_examples:
  "Date_parse ''2024-01-31'' = Some 1706659200000"
  "Date_parse ''2024-03-02'' = Some 1709337600000"
  "Date_parse ''2024-13-45'' = None"
  by (simp_all add: date_eval)

lemma civil_from_days_examples:
  "civil_from_days 19753 = (2024, 1, 31)" "civil_from_days 19784 = (2024, 3, 2)"
  unfolding civil_from_days_def Let_def by simp_all

lemma nextRecurringDate_examples:
  "nextRecurringDate 0 ''2024-01-31'' Rec_monthly = Inr ''2024-03-02''"
  "nextRecurringDate 0 ''2024-13-45'' Rec_monthly = Inl RangeError"
  by (simp_all add: nextRecurringDate_def Date_parse_examples setMonth_def getMonth_def
       LocalTime_def UTC_def MonthFromTime_def YearFromTime_def DateFromTime_def Day_def
       msPerDay_def civil_from_days_examples MakeDay_def MakeDate_def TimeWithinDay_def
       days_from_civil_def TimeClip_def toISOString_def yearString_def pad_unfold digitChar_def
       digit_chars)

text \<open>
  Let the bill at index \<open>k\<close> be the first that carries the id, and let it be unpaid. If it
  does not recur, the toggle leaves it paid, with the same due date and \<open>updatedAt\<close>
  refreshed. If it recurs and its due date is a string of four, two and two digits that writes
  a date of the calendar, the toggle leaves it unpaid, \<open>updatedAt\<close> refreshed, with the due
  date \<^verbatim>\<open>nextRecurringDate\<close> returns, which the runtime reads as a later date. The handler
  reaches \<^verbatim>\<open>save()\<close> with that one record changed.
\<close>

lemma togglePaid_unpaid:
  assumes k: "k < length bills" "bill_id (bills ! k) = i" "\<forall>j<k. bill_id (bills ! j) \<noteq> i"
    and i: "i \<noteq> []" and unpaid: "\<not> paid (bills ! k)"
  shows "(recurrence (bills ! k) = Rec_none \<longrightarrow>
            togglePaid tza now i bills
              = (Saved, bills[k := (bills ! k)\<lparr> paid := True, updatedAt := now \<rparr>]))
       \<and> (recurrence (bills ! k) \<noteq> Rec_none \<and> dateRegex (dueDate (bills ! k))
            \<and> (\<exists>y m d. dateFields (dueDate (bills ! k)) = Some (y, m, d)
                          \<and> validDate (int y) (int m) (int d)) \<longrightarrow>
            (\<exists>s t t'. nextRecurringDate tza (dueDate (bills ! k)) (recurrence (bills ! k)) = Inr s
                \<and> togglePaid tza now i bills
                     = (Saved, bills[k := (bills ! k)\<lparr> paid := False, updatedAt := now, dueDate := s \<rparr>])
                \<and> Date_parse (dueDate (bills ! k)) = Some t \<and> Date_parse s = Some t' \<and> t < t'))"
proof (intro conjI impI)
  assume "recurrence (bills ! k) = Rec_none"
  then show "togglePaid tza now i bills
      = (Saved, bills[k := (bills ! k)\<lparr> paid := True, updatedAt := now \<rparr>])"
    using unpaid by (simp add: togglePaid_found [OF k i] Let_def)
next
  assume a: "recurrence (bills ! k) \<noteq> Rec_none \<and> dateRegex (dueDate (bills ! k))
            \<and> (\<exists>y m d. dateFields (dueDate (bills ! k)) = Some (y, m, d)
                          \<and> validDate (int y) (int m) (int d))"
  then obtain y m d where df: "dateFields (dueDate (bills ! k)) = Some (y, m, d)"
    "validDate (int y) (int m) (int d)" by blast
  from nextRecurringDate_later [OF _ df(1) _ df(2), of "recurrence (bills ! k)" tza] a
  obtain s t t' where
    s: "nextRecurringDate tza (dueDate (bills ! k)) (recurrence (bills ! k)) = Inr s"
       "Date_parse (dueDate (bills ! k)) = Some t" "Date_parse s = Some t'" "t < t'"
    by blast
  have req: "(bills ! k)\<lparr> updatedAt := now, dueDate := s, paid := False \<rparr>
      = (bills ! k)\<lparr> paid := False, updatedAt := now, dueDate := s \<rparr>"
    by (rule Bill.equality) simp_all
  have "togglePaid tza now i bills
      = (Saved, bills[k := (bills ! k)\<lparr> paid := False, updatedAt := now, dueDate := s \<rparr>])"
    using unpaid a s(1) by (simp add: togglePaid_found [OF k i] Let_def req)
  then show "\<exists>s t t'. nextRecurringDate tza (dueDate (bills ! k)) (recurrence (bills ! k)) = Inr s
                \<and> togglePaid tza now i bills
                     = (Saved, bills[k := (bills ! k)\<lparr> paid := False, updatedAt := now, dueDate := s \<rparr>])
                \<and> Date_parse (dueDate (bills ! k)) = Some t \<and> Date_parse s = Some t' \<and> t < t'"
    using s by blast
qed

lemma togglePaid_unpaid_at_UTC:
  "bill_id ([recurringBill] ! 0) = ''a'' \<and> \<not> paid ([recurringBill] ! 0)
   \<and> dateRegex (dueDate recurringBill)
   \<and> dateFields (dueDate recurringBill) = Some (2024, 1, 31) \<and> validDate 2024 1 31
   \<and> togglePaid 0 ''2024-06-01T10:00:00.000Z'' ''a'' [recurringBill]
        = (Saved, [recurringBill\<lparr> paid := False, updatedAt := ''2024-06-01T10:00:00.000Z'',
                                   dueDate := ''2024-03-02'' \<rparr>])
   \<and> Date_parse ''2024-01-31'' = Some 1706659200000 \<and> Date_parse ''2024-03-02'' = Some 1709337600000
   \<and> togglePaid 0 ''2024-06-01T10:00:00.000Z'' ''a'' [exampleBill]
        = (Saved, [exampleBill\<lparr> paid := True, updatedAt := ''2024-06-01T10:00:00.000Z'' \<rparr>])"
proof -
  let ?now = "''2024-06-01T10:00:00.000Z''"
  have h: "(0::nat) < length [recurringBill]" "bill_id ([recurringBill] ! 0) = ''a''"
    "\<forall>j<(0::nat). bill_id ([recurringBill] ! j) \<noteq> ''a''" "''a'' \<noteq> []" "\<not> paid ([recurringBill] ! 0)"
    by (simp_all add: recurringBill_def exampleBill_def)
  have g: "(0::nat) < length [exampleBill]" "bill_id ([exampleBill] ! 0) = ''a''"
    "\<forall>j<(0::nat). bill_id ([exampleBill] ! j) \<noteq> ''a''" "\<not> paid ([exampleBill] ! 0)"
    by (simp_all add: exampleBill_def)
  have re: "dateRegex (dueDate recurringBill)"
    by (simp add: recurringBill_def isDigit_def)
  have df: "dateFields (dueDate recurringBill) = Some (2024, 1, 31)"
    by (simp add: recurringBill_def digitVals)
  have v: "validDate 2024 1 31"
    by (simp add: validDate_def DaysInMonth_def)
  have rec: "recurrence ([recurringBill] ! 0) \<noteq> Rec_none" "dueDate ([recurringBill] ! 0) = ''2024-01-31''"
    "recurrence ([recurringBill] ! 0) = Rec_monthly"
    by (simp_all add: recurringBill_def)
  from togglePaid_unpaid [OF h, of 0 ?now] re df v rec(1)
  obtain s where s: "nextRecurringDate 0 (dueDate ([recurringBill] ! 0)) (recurrence ([recurringBill] ! 0)) = Inr s"
    "togglePaid 0 ?now ''a'' [recurringBill]
       = (Saved, [recurringBill][0 := ([recurringBill] ! 0)\<lparr> paid := False, updatedAt := ?now, dueDate := s \<rparr>])"
    by auto
  from s(1) have "s = ''2024-03-02''"
    unfolding rec(2,3) nextRecurringDate_examples by simp
  with s(2) have 1: "togglePaid 0 ?now ''a'' [recurringBill]
        = (Saved, [recurringBill\<lparr> paid := False, updatedAt := ?now, dueDate := ''2024-03-02'' \<rparr>])"
    by simp
  have "recurrence ([exampleBill] ! 0) = Rec_none" by (simp add: exampleBill_def)
  with togglePaid_unpaid [OF g(1,2,3) h(4) g(4), of 0 ?now]
  have 2: "togglePaid 0 ?now ''a'' [exampleBill]
        = (Saved, [exampleBill\<lparr> paid := True, updatedAt := ?now \<rparr>])"
    by simp
  show ?thesis using h(2,5) re df v 1 2 Date_parse_examples(1,2) by simp
qed

text \<open>
  A recurring bill whose due date passed the format check but is no date: \<^verbatim>\<open>toISOString\<close>
  throws after the bill was marked paid, the handler shows an error and the bill stays paid,
  its due date unchanged.
\<close>

lemma togglePaid_invalid_date:
  "upsertBillFromForm ''a'' ''2024-05-01T09:00:00.000Z''
      \<lparr> idEl = [], nameEl = ''Rent'', amountEl = Fin 100, dueEl = ''2024-13-45'',
        recurrenceEl = Rec_monthly, notesEl = [] \<rparr> []
     = (True, None, [invalidDateBill])
   \<and> togglePaid 0 ''2024-06-01T10:00:00.000Z'' ''a'' [invalidDateBill]
     = (ShowedError ''Failed to toggle-paid bill'',
        [invalidDateBill\<lparr> paid := True, updatedAt := ''2024-06-01T10:00:00.000Z'' \<rparr>])"
proof -
  have "trim ''Rent'' = ''Rent''" "trim [] = []"
    by (simp_all add: trim_def isWhiteSpace_def)
  then have 1: "upsertBillFromForm ''a'' ''2024-05-01T09:00:00.000Z''
      \<lparr> idEl = [], nameEl = ''Rent'', amountEl = Fin 100, dueEl = ''2024-13-45'',
        recurrenceEl = Rec_monthly, notesEl = [] \<rparr> []
     = (True, None, [invalidDateBill])"
    by (simp add: upsertBillFromForm_def validateBillForm_def parseMoney_def isFinite_def
        isDigit_def Let_def invalidDateBill_def exampleBill_def)
  have 2: "togglePaid 0 ''2024-06-01T10:00:00.000Z'' ''a'' [invalidDateBill]
     = (ShowedError ''Failed to toggle-paid bill'',
        [invalidDateBill\<lparr> paid := True, updatedAt := ''2024-06-01T10:00:00.000Z'' \<rparr>])"
    by (simp add: togglePaid_def billListClick_def Let_def invalidDateBill_def exampleBill_def
        nextRecurringDate_examples)
  show ?thesis using 1 2 by simp
qed

lemma Date_parse_march: "Date_parse ''2024-03-01'' = Some 1709251200000"
  by (simp add: date_eval)

lemma nextRecurringDate_west:
  "nextRecurringDate (- 18000000) ''2024-03-01'' Rec_monthly = Inr ''2024-03-30''"
  "nextRecurringDate (- 18000000) ''2024-03-01'' Rec_yearly = Inr ''2025-03-02''"
  by (simp_all add: nextRecurringDate_def Date_parse_march setMonth_def getMonth_def
       setFullYear_def getFullYear_def
       LocalTime_def UTC_def MonthFromTime_def YearFromTime_def DateFromTime_def Day_def
       msPerDay_def civil_from_days_west MakeDay_def MakeDate_def TimeWithinDay_def
       days_from_civil_def TimeClip_def toISOString_def yearString_def pad_unfold digitChar_def
       digit_chars)

text \<open>
  C1. Toggling an unpaid recurring bill is to leave it unpaid with its due date replaced by
  the next occurrence, one calendar month or one calendar year later. \<^verbatim>\<open>nextRecurringDate\<close>
  reads the due date as midnight UTC, advances the month or the year of the local date of that
  instant, and prints the result in UTC. On a host five hours west of UTC, 2024-03-01 is
  29 February in local time: a monthly bill due 2024-03-01 is given the due date 2024-03-30
  and a yearly one 2025-03-02, where the next occurrences are 2024-04-01 and 2025-03-01. And
  on the recurring bill whose due date is no date the toggle ends in an error with the bill
  left paid.
\<close>

theorem togglePaid_drifts_west_of_UTC:
  "togglePaid (- 18000000) ''2024-02-20T15:00:00.000Z'' ''a'' [marchBill]
     = (Saved, [marchBill\<lparr> updatedAt := ''2024-02-20T15:00:00.000Z'', dueDate := ''2024-03-30'' \<rparr>])
   \<and> togglePaid (- 18000000) ''2024-02-20T15:00:00.000Z'' ''a'' [marchBill\<lparr> recurrence := Rec_yearly \<rparr>]
     = (Saved, [marchBill\<lparr> recurrence := Rec_yearly, updatedAt := ''2024-02-20T15:00:00.000Z'',
                           dueDate := ''2025-03-02'' \<rparr>])
   \<and> togglePaid 0 ''2024-06-01T10:00:00.000Z'' ''a'' [invalidDateBill]
     = (ShowedError ''Failed to toggle-paid bill'',
        [invalidDateBill\<lparr> paid := True, updatedAt := ''2024-06-01T10:00:00.000Z'' \<rparr>])"
  by (simp add: togglePaid_def billListClick_def Let_def marchBill_def invalidDateBill_def
      exampleBill_def nextRecurringDate_west nextRecurringDate_examples)

section \<open>Recurring bills are not paid\<close>

lemma recurringUnpaid_update:
  assumes "recurringUnpaid bills" "\<not> (recurrence b \<noteq> Rec_none \<and> paid b)"
  shows "recurringUnpaid (bills[k := b])"
  using assms set_update_subset_insert [of bills k b] unfolding recurringUnpaid_def by blast

lemma recurringUnpaid_nth:
  "recurringUnpaid bills \<Longrightarrow> k < length bills \<Longrightarrow> \<not> (recurrence (bills ! k) \<noteq> Rec_none \<and> paid (bills ! k))"
  unfolding recurringUnpaid_def by simp

lemma upsert_keeps_recurringUnpaid:
  assumes inv: "recurringUnpaid bills"
    and up: "upsertBillFromForm uid now f bills = (ok, msg, bills')"
    and guard: "\<forall>b\<in>set bills. bill_id b = (if idEl f \<noteq> [] then idEl f else uid) \<and> paid b
                    \<longrightarrow> recurrenceEl f = Rec_none"
  shows "recurringUnpaid bills'"
proof (cases rule: case_split [of "validateBillForm f = None"])
  case False
  then have "bills' = bills" using up by (auto simp: upsertBillFromForm_def)
  then show ?thesis using inv by simp
next
  case True
  define id' where "id' = (if idEl f \<noteq> [] then idEl f else uid)"
  define idx where "idx = findIndex (\<lambda>b. bill_id b = id') bills"
  show ?thesis
  proof (cases rule: case_split [of "0 \<le> idx"])
    case False
    then have "\<exists>r. bills' = bills @ [r] \<and> paid r = False"
      using up True False
      by (auto simp: upsertBillFromForm_def Let_def id'_def [symmetric] idx_def [symmetric])
    then show ?thesis using inv unfolding recurringUnpaid_def by auto
  next
    case ge: True
    from findIndex_first [OF ge [unfolded idx_def]]
    have k: "nat idx < length bills" "bill_id (bills ! nat idx) = id'"
      unfolding idx_def by simp_all
    have "\<exists>r. bills' = bills[nat idx := r] \<and> paid r = paid (bills ! nat idx)
        \<and> recurrence r = recurrenceEl f"
      using up True ge
      by (auto simp: upsertBillFromForm_def Let_def id'_def [symmetric] idx_def [symmetric])
    then obtain r where r: "bills' = bills[nat idx := r]" "paid r = paid (bills ! nat idx)"
      "recurrence r = recurrenceEl f" by blast
    have "\<not> (recurrence r \<noteq> Rec_none \<and> paid r)"
      using guard k r(2,3) nth_mem [OF k(1)] unfolding id'_def by auto
    then show ?thesis unfolding r(1) using inv by (rule recurringUnpaid_update [rotated])
  qed
qed

lemma delete_keeps_recurringUnpaid:
  assumes inv: "recurringUnpaid bills" and del: "deleteBill confirmed i bills = (r, bills')"
  shows "recurringUnpaid bills'"
proof -
  have "set bills' \<subseteq> set bills"
  proof (cases rule: case_split [of "(\<exists>b\<in>set bills. bill_id b = i) \<and> i \<noteq> []"])
    case True
    from deleteBill_present [of bills i] True obtain xs b ys where
      s: "bills = xs @ b # ys" "deleteBill True i bills = (Saved, xs @ ys)"
         "deleteBill False i bills = (Declined, bills)"
      by blast
    show ?thesis
    proof (cases confirmed)
      case True
      then have "bills' = xs @ ys" using del s(2) by simp
      then show ?thesis using s(1) by auto
    next
      case False
      then have "bills' = bills" using del s(3) by simp
      then show ?thesis by simp
    qed
  next
    case False
    have "deleteBill confirmed i bills = (Returned, bills)"
    proof (cases rule: case_split [of "i = []"])
      case True
      then show ?thesis by (simp add: deleteBill_def billListClick_def)
    next
      case ne: False
      then show ?thesis using False by (intro deleteBill_absent) auto
    qed
    then show ?thesis using del by simp
  qed
  then show ?thesis using inv unfolding recurringUnpaid_def by blast
qed

lemma toggle_keeps_recurringUnpaid:
  assumes inv: "recurringUnpaid bills" and tg: "togglePaid tza now i bills = (r, bills')"
    and ok: "\<not> reportsError r"
  shows "recurringUnpaid bills'"
proof (cases rule: case_split [of "0 \<le> findIndex (\<lambda>b. bill_id b = i) bills \<and> i \<noteq> []"])
  case False
  then have "togglePaid tza now i bills = (Returned, bills)"
    by (auto simp: togglePaid_def billListClick_def Let_def)
  then show ?thesis using tg inv by simp
next
  case True
  define k where "k = nat (findIndex (\<lambda>b. bill_id b = i) bills)"
  from True findIndex_first [of "\<lambda>b. bill_id b = i" bills]
  have k: "k < length bills" "bill_id (bills ! k) = i" "\<forall>j<k. bill_id (bills ! j) \<noteq> i"
    unfolding k_def by simp_all
  have i: "i \<noteq> []" using True by simp
  define b1 where "b1 = (bills ! k)\<lparr> paid := \<not> paid (bills ! k), updatedAt := now \<rparr>"
  note found = togglePaid_found [OF k i, of tza now, unfolded Let_def, folded b1_def]
  have eq: "(r, bills') =
     (if paid b1 \<and> recurrence b1 \<noteq> Rec_none then
           (case nextRecurringDate tza (dueDate b1) (recurrence b1) of
              Inl e \<Rightarrow> (ShowedError ''Failed to toggle-paid bill'', bills[k := b1])
            | Inr s \<Rightarrow> (Saved, bills[k := b1\<lparr> dueDate := s, paid := False \<rparr>]))
         else (Saved, bills[k := b1]))"
    using found tg by (simp only:)
  show ?thesis
  proof (cases rule: case_split [of "paid b1 \<and> recurrence b1 \<noteq> Rec_none"])
    case False
    have "(r, bills') = (Saved, bills[k := b1])"
      using eq by (simp only: False if_False)
    then have "bills' = bills[k := b1]" by simp
    moreover have "\<not> (recurrence b1 \<noteq> Rec_none \<and> paid b1)" using False by blast
    ultimately show ?thesis using inv by (simp add: recurringUnpaid_update)
  next
    case rp: True
    show ?thesis
    proof (cases rule: sum.exhaust [of "nextRecurringDate tza (dueDate b1) (recurrence b1)"])
      case (Inl e)
      then have "(r, bills') = (ShowedError ''Failed to toggle-paid bill'', bills[k := b1])"
        using eq rp by simp
      then have "r = ShowedError ''Failed to toggle-paid bill''" by simp
      then show ?thesis using ok by (simp add: reportsError_def)
    next
      case (Inr s)
      then have "(r, bills') = (Saved, bills[k := b1\<lparr> dueDate := s, paid := False \<rparr>])"
        using eq rp by simp
      then have "bills' = bills[k := b1\<lparr> dueDate := s, paid := False \<rparr>]" by simp
      then show ?thesis using inv by (simp add: recurringUnpaid_update)
    qed
  qed
qed

text \<open>
  C2 (as the code has it). In every collection reachable from the empty one by submitting
  the form, deleting and toggling, where no submitted form makes a paid bill recurring and no
  toggle ends in an error, no bill is recurring and paid.
\<close>

theorem recurring_never_paid:
  assumes "bills \<in> reachable_guarded"
  shows "\<forall>b\<in>set bills. \<not> (recurrence b \<noteq> Rec_none \<and> paid b)"
proof -
  have "recurringUnpaid bills"
    using assms
  proof (induction rule: reachable_guarded.induct)
    case empty
    then show ?case by (simp add: recurringUnpaid_def)
  next
    case (upsert bills uid now f ok msg bills')
    show ?case by (rule upsert_keeps_recurringUnpaid [OF upsert.IH upsert.hyps(2,3)])
  next
    case (delete bills confirmed i r bills')
    show ?case by (rule delete_keeps_recurringUnpaid [OF delete.IH delete.hyps(2)])
  next
    case (toggle bills tza now i r bills')
    show ?case by (rule toggle_keeps_recurringUnpaid [OF toggle.IH toggle.hyps(2,3)])
  qed
  then show ?thesis by (simp add: recurringUnpaid_def)
qed

theorem recurring_never_paid_witness:
  "[recurringBill\<lparr> paid := False, updatedAt := ''2024-06-01T10:00:00.000Z'',
                    dueDate := ''2024-03-02'' \<rparr>] \<in> reachable_guarded
   \<and> \<not> (recurrence (recurringBill\<lparr> paid := False, updatedAt := ''2024-06-01T10:00:00.000Z'',
                                      dueDate := ''2024-03-02'' \<rparr>) \<noteq> Rec_none
          \<and> paid (recurringBill\<lparr> paid := False, updatedAt := ''2024-06-01T10:00:00.000Z'',
                                  dueDate := ''2024-03-02'' \<rparr>))"
proof -
  let ?f = "\<lparr> idEl = [], nameEl = ''Rent'', amountEl = Fin 100, dueEl = ''2024-01-31'',
        recurrenceEl = Rec_monthly, notesEl = [] \<rparr>"
  let ?b = "recurringBill\<lparr> paid := False, updatedAt := ''2024-06-01T10:00:00.000Z'',
                    dueDate := ''2024-03-02'' \<rparr>"
  have "trim ''Rent'' = ''Rent''" "trim [] = []"
    by (simp_all add: trim_def isWhiteSpace_def)
  then have 1: "upsertBillFromForm ''a'' ''2024-05-01T09:00:00.000Z'' ?f [] = (True, None, [recurringBill])"
    by (simp add: upsertBillFromForm_def validateBillForm_def parseMoney_def isFinite_def
        isDigit_def Let_def recurringBill_def exampleBill_def)
  have 2: "togglePaid 0 ''2024-06-01T10:00:00.000Z'' ''a'' [recurringBill] = (Saved, [?b])"
    by (simp add: togglePaid_def billListClick_def Let_def recurringBill_def exampleBill_def
        nextRecurringDate_examples)
  have "[recurringBill] \<in> reachable_guarded"
    by (rule reachable_guarded.upsert [OF reachable_guarded.empty 1]) simp
  then have m: "[?b] \<in> reachable_guarded"
    by (rule reachable_guarded.toggle [OF _ 2]) (simp add: reportsError_def)
  from recurring_never_paid [OF m] show ?thesis using m by simp
qed

text \<open>
  C2 as stated: editing a paid one-off bill into a recurring one keeps \<open>paid\<close>, so a
  recurring paid bill is reachable.
\<close>

theorem recurring_paid_counterexample:
  "[exampleBill\<lparr> name := ''Water'', amount := Fin 30, dueDate := ''2024-07-15'',
       recurrence := Rec_monthly, paid := True, updatedAt := ''2024-06-02T10:00:00.000Z'' \<rparr>]
     \<in> reachable
   \<and> recurrence (exampleBill\<lparr> name := ''Water'', amount := Fin 30, dueDate := ''2024-07-15'',
       recurrence := Rec_monthly, paid := True, updatedAt := ''2024-06-02T10:00:00.000Z'' \<rparr>) \<noteq> Rec_none
   \<and> paid (exampleBill\<lparr> name := ''Water'', amount := Fin 30, dueDate := ''2024-07-15'',
       recurrence := Rec_monthly, paid := True, updatedAt := ''2024-06-02T10:00:00.000Z'' \<rparr>)"
proof -
  let ?f0 = "\<lparr> idEl = [], nameEl = ''Rent'', amountEl = Fin 100, dueEl = ''2024-06-08'',
        recurrenceEl = Rec_none, notesEl = [] \<rparr>"
  let ?paid = "exampleBill\<lparr> paid := True, updatedAt := ''2024-06-01T10:00:00.000Z'' \<rparr>"
  let ?b = "exampleBill\<lparr> name := ''Water'', amount := Fin 30, dueDate := ''2024-07-15'',
       recurrence := Rec_monthly, paid := True, updatedAt := ''2024-06-02T10:00:00.000Z'' \<rparr>"
  have tr: "trim ''Rent'' = ''Rent''" "trim [] = []"
    by (simp_all add: trim_def isWhiteSpace_def)
  have 1: "upsertBillFromForm ''a'' ''2024-05-01T09:00:00.000Z'' ?f0 [] = (True, None, [exampleBill])"
    using tr
    by (simp add: upsertBillFromForm_def validateBillForm_def parseMoney_def isFinite_def
        isDigit_def Let_def exampleBill_def)
  have 2: "togglePaid 0 ''2024-06-01T10:00:00.000Z'' ''a'' [exampleBill] = (Saved, [?paid])"
    by (simp add: togglePaid_def billListClick_def Let_def exampleBill_def)
  have 3: "upsertBillFromForm ''u'' ''2024-06-02T10:00:00.000Z'' exampleForm [?paid] = (True, None, [?b])"
    by (simp add: upsertBillFromForm_def validateBillForm_def parseMoney_def isFinite_def
        isDigit_def Let_def exampleBill_def exampleForm_def trim_blank)
  have "[exampleBill] \<in> reachable"
    by (rule reachable.upsert [OF reachable.empty 1])
  then have "[?paid] \<in> reachable"
    by (rule reachable.toggle [OF _ 2])
  then have "[?b] \<in> reachable"
    by (rule reachable.upsert [OF _ 3])
  then show ?thesis by simp
qed

end
